theory Spec2Isabelle
  imports Complex_Main
begin

section \<open>Text, bytes and the Python string operations the handlers use\<close>

text \<open>
  A Python \<open>str\<close> is a sequence of Unicode code points; it is modelled as a list of
  natural numbers, one per code point, so that slicing and \<open>len\<close> count what Python
  counts. \<open>u\<close> turns an ASCII literal of the source into such a list. A \<open>bytes\<close>
  value is a list of numbers below 256.
\<close>

type_synonym str = "nat list"
type_synonym bytes = "nat list"

definition u :: "string \<Rightarrow> str" where
  "u s = map of_char s"

definition LF :: nat where "LF = 10"
definition CR :: nat where "CR = 13"
definition BAR :: nat where "BAR = 124"

text \<open>
  \<open>isspace\<close> is the set of code points that \<open>str.strip()\<close> without argument removes
  (CPython's \<open>_PyUnicode_IsWhitespace\<close>).
\<close>

definition isspace :: "nat \<Rightarrow> bool" where
  "isspace c \<longleftrightarrow>
     (9 \<le> c \<and> c \<le> 13) \<or> (28 \<le> c \<and> c \<le> 32) \<or> c = 133 \<or> c = 160 \<or> c = 5760 \<or>
     (8192 \<le> c \<and> c \<le> 8202) \<or> c = 8232 \<or> c = 8233 \<or> c = 8239 \<or> c = 8287 \<or> c = 12288"

definition strip :: "str \<Rightarrow> str" where
  "strip s = rev (dropWhile isspace (rev (dropWhile isspace s)))"

text \<open>\<open>split d s\<close> is \<open>s.split(d)\<close> for a one-character separator: never an empty list.\<close>

fun split :: "nat \<Rightarrow> str \<Rightarrow> str list" where
  "split d [] = [[]]"
| "split d (c # cs) =
     (if c = d then [] # split d cs
      else (let r = split d cs in (c # hd r) # tl r))"

text \<open>\<open>str_int n\<close> is \<open>str(n)\<close> for a non-negative integer.\<close>

fun str_int :: "nat \<Rightarrow> str" where
  "str_int n = (if n < 10 then [48 + n] else str_int (n div 10) @ [48 + n mod 10])"

declare str_int.simps [simp del]

text \<open>\<open>zpad w n\<close> is \<open>"%0wd" % n\<close>: at least \<open>w\<close> digits, padded with zeros on the left.\<close>

definition zpad :: "nat \<Rightarrow> nat \<Rightarrow> str" where
  "zpad w n = replicate (w - length (str_int n)) 48 @ str_int n"

subsection \<open>The text file as Python reads it\<close>

text \<open>
  \<open>open(LOG_FILE, 'r', encoding='utf-8')\<close> reads with universal newlines: \<open>\r\n\<close> and a
  lone \<open>\r\<close> arrive as \<open>\n\<close>. \<open>readlines()\<close> then cuts after every \<open>\n\<close> and keeps
  it; a last line without terminator is kept as it is. The file content is modelled as
  the decoded text, and writing is the identity on it (the POSIX convention, where
  \<open>os.linesep\<close> is \<open>\n\<close>).
\<close>

fun translate_newlines :: "str \<Rightarrow> str" where
  "translate_newlines [] = []"
| "translate_newlines [c] = (if c = CR then [LF] else [c])"
| "translate_newlines (c # d # cs) =
     (if c = CR then (if d = LF then LF # translate_newlines cs
                      else LF # translate_newlines (d # cs))
      else c # translate_newlines (d # cs))"

fun keepends :: "str \<Rightarrow> str list" where
  "keepends [] = []"
| "keepends (c # cs) =
     (if c = LF then [LF] # keepends cs
      else (case keepends cs of [] \<Rightarrow> [[c]] | l # ls \<Rightarrow> (c # l) # ls))"

definition readlines :: "str \<Rightarrow> str list" where
  "readlines content = keepends (translate_newlines content)"

subsection \<open>Base64\<close>

text \<open>
  \<open>base64.b64decode\<close> on a correctly padded literal: characters outside the alphabet
  are dropped, every four sextets give three bytes, and the padding \<open>=\<close> ends the data.
\<close>

definition b64_alphabet :: "nat \<Rightarrow> bool" where
  "b64_alphabet n \<longleftrightarrow>
     (65 \<le> n \<and> n \<le> 90) \<or> (97 \<le> n \<and> n \<le> 122) \<or> (48 \<le> n \<and> n \<le> 57) \<or> n = 43 \<or> n = 47"

definition b64_value :: "nat \<Rightarrow> nat" where
  "b64_value n =
     (if 65 \<le> n \<and> n \<le> 90 then n - 65
      else if 97 \<le> n \<and> n \<le> 122 then n - 71
      else if 48 \<le> n \<and> n \<le> 57 then n + 4
      else if n = 43 then 62 else 63)"

fun b64_bytes :: "nat list \<Rightarrow> bytes" where
  "b64_bytes (a # b # c # d # r) =
     [a * 4 + b div 16, (b mod 16) * 16 + c div 4, (c mod 4) * 64 + d] @ b64_bytes r"
| "b64_bytes [a, b, c] = [a * 4 + b div 16, (b mod 16) * 16 + c div 4]"
| "b64_bytes [a, b] = [a * 4 + b div 16]"
| "b64_bytes _ = []"

definition b64decode :: "string \<Rightarrow> bytes" where
  "b64decode s =
     b64_bytes (map b64_value
       (takeWhile (\<lambda>n. n \<noteq> 61) (filter (\<lambda>n. b64_alphabet n \<or> n = 61) (u s))))"

section \<open>The tracker\<close>

text \<open>The 1x1 transparent PNG served for every pixel request.\<close>

definition PIXEL_DATA :: bytes where
  "PIXEL_DATA = b64decode
     ''iVBORw0KGgoAAAANSUhEUgAAAAEAAAABCAQAAAC1HAwCAAAAC0lEQVR42mNk+A8AAQUBAScY42YAAAAASUVORK5CYII=''"

subsection \<open>The world a handler runs in\<close>

text \<open>
  \<open>log_file\<close> is the text stored in \<open>LOG_FILE\<close>, \<open>None\<close> while the file does not exist;
  \<open>stdout\<close> holds the lines printed so far.
\<close>

record world =
  log_file :: "str option"
  stdout :: "str list"

text \<open>
  A request carries its headers and the address of the peer, which the framework may
  not know (\<open>remote_addr\<close> is then \<open>None\<close>).
\<close>

record request =
  headers :: "string \<rightharpoonup> str"
  remote_addr :: "str option"

text \<open>The value of \<open>datetime.now()\<close>: a naive local date and time.\<close>

record datetime =
  year :: nat
  month :: nat
  day :: nat
  hour :: nat
  minute :: nat
  second :: nat
  microsecond :: nat

definition isoformat :: "datetime \<Rightarrow> str" where
  "isoformat d =
     zpad 4 (year d) @ u ''-'' @ zpad 2 (month d) @ u ''-'' @ zpad 2 (day d) @ u ''T'' @
     zpad 2 (hour d) @ u '':'' @ zpad 2 (minute d) @ u '':'' @ zpad 2 (second d) @
     (if microsecond d \<noteq> 0 then u ''.'' @ zpad 6 (microsecond d) else [])"

text \<open>What a handler returns to the framework.\<close>

datatype response =
  SendFile (data: bytes) (mimetype: str) (as_attachment: bool)
| Page (body: str) (status: nat)
| Dict "(string \<times> string) list"

text \<open>
  The exceptions the handlers meet. \<open>OtherException m\<close> is any exception that is not a
  \<open>FileNotFoundError\<close> and whose \<open>str()\<close> is \<open>m\<close> (a permission error, a decoding
  error, a full disk).
\<close>

datatype exn = FileNotFoundError | ZeroDivisionError | OtherException str

subsection \<open>The pixel handler\<close>

text \<open>An f-string prints an absent value as \<open>None\<close>.\<close>

definition str_opt :: "str option \<Rightarrow> str" where
  "str_opt v = (case v of None \<Rightarrow> u ''None'' | Some s \<Rightarrow> s)"

definition get_ip :: "request \<Rightarrow> str" where
  "get_ip rq =
     str_opt (case headers rq ''X-Forwarded-For'' of None \<Rightarrow> remote_addr rq | Some v \<Rightarrow> Some v)"

definition get_user_agent :: "request \<Rightarrow> str" where
  "get_user_agent rq =
     (case headers rq ''User-Agent'' of None \<Rightarrow> u ''Unknown'' | Some v \<Rightarrow> v)"

definition log_entry :: "str \<Rightarrow> str \<Rightarrow> str \<Rightarrow> str \<Rightarrow> str" where
  "log_entry timestamp tracking_id ip user_agent =
     timestamp @ u ''|'' @ tracking_id @ u ''|'' @ ip @ u ''|'' @ user_agent @ [LF]"

text \<open>
  What the operating system does with the append is not the handler's choice:
  \<open>Written\<close> is the append going through, \<open>Failed m left\<close> is \<open>open\<close> or \<open>write\<close>
  raising an exception with text \<open>m\<close> and leaving the file as \<open>left\<close>.
\<close>

datatype append_outcome = Written | Failed str "str option"

definition track_pixel ::
  "str \<Rightarrow> request \<Rightarrow> datetime \<Rightarrow> append_outcome \<Rightarrow> world \<Rightarrow> response \<times> world" where
  "track_pixel tracking_id rq now oc w =
     (let timestamp = isoformat now;
          ip = get_ip rq;
          user_agent = get_user_agent rq;
          entry = log_entry timestamp tracking_id ip user_agent;
          w' = (case oc of
                  Written \<Rightarrow>
                    w\<lparr>log_file := Some ((case log_file w of None \<Rightarrow> [] | Some c \<Rightarrow> c) @ entry)\<rparr>
                | Failed m left \<Rightarrow>
                    w\<lparr>log_file := left, stdout := stdout w @ [u ''Error logging: '' @ m]\<rparr>)
      in (SendFile PIXEL_DATA (u ''image/png'') False, w'))"

text \<open>
  The route \<open>/pixel/<tracking_id>.png\<close>: the path is \<open>/pixel/\<close>, a non-empty segment
  without \<open>/\<close>, and \<open>.png\<close>; the segment is the handler's argument.
\<close>

definition pixel_route :: "str \<Rightarrow> str option" where
  "pixel_route path =
     (let tracking_id = take (length path - 11) (drop 7 path)
      in if take 7 path = u ''/pixel/'' \<and> drop (length path - 4) path = u ''.png'' \<and>
            12 \<le> length path \<and> 47 \<notin> set tracking_id
         then Some tracking_id else None)"

subsection \<open>The stats handler\<close>

record open_event =
  timestamp :: str
  tracking_id :: str
  ip :: str
  user_agent :: str

text \<open>
  The parsing loop: every line is stripped and split on \<open>|\<close>; a line with at least
  four parts appends a record of the first four.
\<close>

fun parse_logs :: "str list \<Rightarrow> open_event list" where
  "parse_logs [] = []"
| "parse_logs (line # lines) =
     (let parts = split BAR (strip line)
      in if length parts \<ge> 4
         then \<lparr>timestamp = parts ! 0, tracking_id = parts ! 1,
               ip = parts ! 2, user_agent = parts ! 3\<rparr> # parse_logs lines
         else parse_logs lines)"

definition total_opens :: "open_event list \<Rightarrow> nat" where
  "total_opens opens = length opens"

definition unique_emails :: "open_event list \<Rightarrow> nat" where
  "unique_emails opens = card (set (map tracking_id opens))"

text \<open>The literal text of the page, cut where the f-strings insert a value.\<close>

definition html_1 :: str where
  \<open>html_1 =
     u ''\<newline>'' @
     u ''        <html>\<newline>'' @
     u ''        <head><title>Email Tracking Stats</title>\<newline>'' @
     u ''        <style>\<newline>'' @
     u ''            body {font-family: Arial; padding: 20px; background: #f5f5f5;}\<newline>'' @
     u ''            .stat {background: white; padding: 20px; margin: 10px 0; border-radius: 8px;}\<newline>'' @
     u ''            table {width: 100%; border-collapse: collapse; margin-top: 20px;}\<newline>'' @
     u ''            th, td {padding: 10px; text-align: left; border-bottom: 1px solid #ddd;}\<newline>'' @
     u ''            th {background: #646db1; color: white;}\<newline>'' @
     u ''            tr:hover {background: #f5f5f5;}\<newline>'' @
     u ''        </style>\<newline>'' @
     u ''        </head>\<newline>'' @
     u ''        <body>\<newline>'' @
     u ''        <h1>'' @
     [128202] @
     u '' Email Tracking Stats</h1>\<newline>'' @
     u ''        \<newline>'' @
     u ''        <div class="stat">\<newline>'' @
     u ''            <h2>Summary</h2>\<newline>'' @
     u ''            <p><strong>Total Opens:</strong> ''\<close>

definition html_2 :: str where
  \<open>html_2 =
     u ''</p>\<newline>'' @
     u ''            <p><strong>Unique Emails:</strong> ''\<close>

definition html_3 :: str where
  \<open>html_3 =
     u ''</p>\<newline>'' @
     u ''            <p><strong>Open Rate:</strong> ''\<close>

definition html_4 :: str where
  \<open>html_4 =
     u ''% (avg opens per email)</p>\<newline>'' @
     u ''        </div>\<newline>'' @
     u ''        \<newline>'' @
     u ''        <div class="stat">\<newline>'' @
     u ''            <h2>Recent Opens</h2>\<newline>'' @
     u ''            <table>\<newline>'' @
     u ''                <tr>\<newline>'' @
     u ''                    <th>Timestamp</th>\<newline>'' @
     u ''                    <th>Tracking ID</th>\<newline>'' @
     u ''                    <th>IP</th>\<newline>'' @
     u ''                    <th>User Agent</th>\<newline>'' @
     u ''                </tr>\<newline>'' @
     u ''        ''\<close>

definition row_1 :: str where
  \<open>row_1 =
     u ''\<newline>'' @
     u ''                <tr>\<newline>'' @
     u ''                    <td>''\<close>

definition row_2 :: str where
  \<open>row_2 =
     u ''</td>\<newline>'' @
     u ''                    <td>''\<close>

definition row_3 :: str where
  \<open>row_3 =
     u ''</td>\<newline>'' @
     u ''                    <td>''\<close>

definition row_4 :: str where
  \<open>row_4 =
     u ''</td>\<newline>'' @
     u ''                    <td>''\<close>

definition row_5 :: str where
  \<open>row_5 =
     u ''</td>\<newline>'' @
     u ''                </tr>\<newline>'' @
     u ''            ''\<close>

definition html_end :: str where
  \<open>html_end =
     u ''\<newline>'' @
     u ''            </table>\<newline>'' @
     u ''        </div>\<newline>'' @
     u ''        </body>\<newline>'' @
     u ''        </html>\<newline>'' @
     u ''        ''\<close>


text \<open>\<open>recent opens\<close> is \<open>reversed(opens[-50:])\<close>.\<close>

definition recent :: "open_event list \<Rightarrow> open_event list" where
  "recent opens = rev (drop (length opens - 50) opens)"

definition table_row :: "open_event \<Rightarrow> str" where
  "table_row open_event =
     row_1 @ take 19 (timestamp open_event) @ row_2 @ tracking_id open_event @ row_3 @
     ip open_event @ row_4 @ take 80 (user_agent open_event) @ row_5"

text \<open>
  Reading the log. \<open>fault\<close> is what the operating system or the decoder does beyond the
  handler's control: \<open>Some m\<close> is \<open>open\<close> or \<open>readlines\<close> raising an exception other than
  \<open>FileNotFoundError\<close>, with text \<open>m\<close>. A file that does not exist raises
  \<open>FileNotFoundError\<close>.
\<close>

definition read_log :: "str option \<Rightarrow> world \<Rightarrow> exn + str list" where
  "read_log fault w =
     (case fault of
        Some m \<Rightarrow> Inl (OtherException m)
      | None \<Rightarrow> (case log_file w of
                  None \<Rightarrow> Inl FileNotFoundError
                | Some content \<Rightarrow> Inr (readlines content)))"

subsection \<open>The open rate: Python's float arithmetic\<close>

text \<open>
  \<open>total_opens / unique_emails * 100\<close> is computed in binary64. A positive finite
  double is \<open>m * 2 ^ x\<close> with a mantissa \<open>m\<close> of 53 bits; it is kept as the pair
  \<open>(m, x)\<close>. \<open>total_opens\<close> is the length of a Python list, hence below \<open>2 ^ 63\<close>, and
  \<open>unique_emails\<close> is between 1 and \<open>total_opens\<close> when the division is reached, so the
  quotient lies between 1 and \<open>2 ^ 63\<close>: subnormal numbers, infinities and the
  \<open>OverflowError\<close> of an over-large quotient do not arise and are not modelled.
\<close>

text \<open>\<open>ilog2 n\<close> is \<open>n.bit_length() - 1\<close> for \<open>n > 0\<close>.\<close>

fun ilog2 :: "nat \<Rightarrow> nat" where
  "ilog2 n = (if n < 2 then 0 else 1 + ilog2 (n div 2))"

declare ilog2.simps [simp del]

text \<open>\<open>round_half_even a b\<close> is the integer nearest to \<open>a / b\<close>, a tie going to the even one.\<close>

definition round_half_even :: "nat \<Rightarrow> nat \<Rightarrow> nat" where
  "round_half_even a b =
     (let q = a div b; r = a mod b
      in if 2 * r < b then q else if b < 2 * r then q + 1 else if even q then q else q + 1)"

type_synonym double = "nat \<times> int"

text \<open>\<open>floor_log2 p q\<close> is the exponent \<open>e\<close> with \<open>2 ^ e \<le> p / q < 2 ^ (e + 1)\<close>.\<close>

definition floor_log2 :: "nat \<Rightarrow> nat \<Rightarrow> int" where
  "floor_log2 p q =
     (let d = int (ilog2 p) - int (ilog2 q)
      in if (if 0 \<le> d then q * 2 ^ nat d \<le> p else q \<le> p * 2 ^ nat (- d)) then d else d - 1)"

text \<open>
  \<open>to_double p q\<close> is the double nearest to the quotient \<open>p / q\<close> of two positive integers
  (round half to even at 53 bits).
\<close>

definition to_double :: "nat \<Rightarrow> nat \<Rightarrow> double" where
  "to_double p q =
     (let x = floor_log2 p q - 52
      in (if 0 \<le> x then round_half_even p (q * 2 ^ nat x)
          else round_half_even (p * 2 ^ nat (- x)) q, x))"

text \<open>
  \<open>true_div a b\<close> is Python's \<open>a / b\<close> on integers with \<open>b \<noteq> 0\<close>, which is correctly
  rounded; \<open>float_mul d c\<close> is the product of a double and the integer constant \<open>c\<close>,
  rounded once.
\<close>

definition true_div :: "nat \<Rightarrow> nat \<Rightarrow> double" where
  "true_div a b = to_double a b"

definition float_mul :: "double \<Rightarrow> nat \<Rightarrow> double" where
  "float_mul d c =
     (case d of (m, x) \<Rightarrow>
        if 0 \<le> x then to_double (m * c * 2 ^ nat x) 1 else to_double (m * c) (2 ^ nat (- x)))"

text \<open>
  The format \<open>.1f\<close> rounds the exact value of the double to one decimal, half to even:
  \<open>tenths d\<close> is the value in tenths, \<open>format_1f d\<close> its text.
\<close>

definition tenths :: "double \<Rightarrow> nat" where
  "tenths d =
     (case d of (m, x) \<Rightarrow>
        if 0 \<le> x then m * 10 * 2 ^ nat x else round_half_even (m * 10) (2 ^ nat (- x)))"

definition format_1f :: "double \<Rightarrow> str" where
  "format_1f d = (let k = tenths d in str_int (k div 10) @ u ''.'' @ str_int (k mod 10))"

text \<open>\<open>open_rate t n\<close> is the text of \<open>f"{(t/n*100):.1f}"\<close> for \<open>n \<noteq> 0\<close>.\<close>

definition open_rate :: "nat \<Rightarrow> nat \<Rightarrow> str" where
  "open_rate t n = format_1f (float_mul (true_div t n) 100)"

text \<open>
  The body of the \<open>try\<close>. The formatter of the open rate is the argument \<open>rate_1f\<close>;
  the handler's own is \<open>open_rate\<close>, so the handler is \<open>view_stats open_rate\<close>. With
  \<open>unique_emails = 0\<close> the division raises \<open>ZeroDivisionError\<close> before anything is
  formatted.
\<close>

definition summary :: "str \<Rightarrow> str \<Rightarrow> str \<Rightarrow> str" where
  "summary opens_s emails_s rate_s =
     html_1 @ opens_s @ html_2 @ emails_s @ html_3 @ rate_s @ html_4"

definition render :: "(nat \<Rightarrow> nat \<Rightarrow> str) \<Rightarrow> open_event list \<Rightarrow> exn + str" where
  "render rate_1f opens =
     (if unique_emails opens = 0 then Inl ZeroDivisionError
      else Inr (foldl (\<lambda>html open_event. html @ table_row open_event)
                  (summary (str_int (total_opens opens)) (str_int (unique_emails opens))
                     (rate_1f (total_opens opens) (unique_emails opens)))
                  (recent opens)
                @ html_end))"

definition stats_try :: "(nat \<Rightarrow> nat \<Rightarrow> str) \<Rightarrow> str option \<Rightarrow> world \<Rightarrow> exn + str" where
  "stats_try rate_1f fault w =
     (case read_log fault w of
        Inl e \<Rightarrow> Inl e
      | Inr lines \<Rightarrow> render rate_1f (parse_logs lines))"

definition view_stats ::
  "(nat \<Rightarrow> nat \<Rightarrow> str) \<Rightarrow> str option \<Rightarrow> world \<Rightarrow> response \<times> world" where
  "view_stats rate_1f fault w =
     (case stats_try rate_1f fault w of
        Inr html \<Rightarrow> (Page html 200, w)
      | Inl FileNotFoundError \<Rightarrow> (Page (u ''<h1>No tracking data yet</h1>'') 404, w)
      | Inl ZeroDivisionError \<Rightarrow>
          (Page (u ''<h1>Error: '' @ u ''division by zero'' @ u ''</h1>'') 500, w)
      | Inl (OtherException m) \<Rightarrow> (Page (u ''<h1>Error: '' @ m @ u ''</h1>'') 500, w))"

subsection \<open>The health check\<close>

definition home :: "world \<Rightarrow> response \<times> world" where
  "home w =
     (Dict [(''status'', ''running''), (''service'', ''Ocrevus Email Tracker''),
            (''version'', ''1.0'')], w)"

text \<open>A run of pixel requests whose appends all go through, in order.\<close>

fun pixel_requests :: "(str \<times> request \<times> datetime) list \<Rightarrow> world \<Rightarrow> world" where
  "pixel_requests [] w = w"
| "pixel_requests ((tid, rq, now) # rest) w =
     pixel_requests rest (snd (track_pixel tid rq now Written w))"

subsection \<open>Notions used to state the properties\<close>

text \<open>A text without line break: neither \<open>\n\<close> nor \<open>\r\<close> occurs in it.\<close>

definition no_linebreak :: "str \<Rightarrow> bool" where
  "no_linebreak s \<longleftrightarrow> LF \<notin> set s \<and> CR \<notin> set s"

text \<open>The line that one pixel request formats (the \<open>log_entry\<close> of \<open>track_pixel\<close>).\<close>

fun request_entry :: "str \<times> request \<times> datetime \<Rightarrow> str" where
  "request_entry (tid, rq, now) = log_entry (isoformat now) tid (get_ip rq) (get_user_agent rq)"

text \<open>The real number that a double stands for.\<close>

definition dval :: "double \<Rightarrow> real" where
  "dval d = (case d of (m, x) \<Rightarrow> if 0 \<le> x then real m * 2 ^ nat x else real m / 2 ^ nat (- x))"

text \<open>Concrete inputs: a request, a clock reading and a world without log file.\<close>

definition rq0 :: request where
  "rq0 = \<lparr>headers = [''User-Agent'' \<mapsto> u ''Mozilla/5.0''], remote_addr = Some (u ''10.0.0.1'')\<rparr>"

definition dt0 :: datetime where
  "dt0 = \<lparr>year = 2025, month = 12, day = 15, hour = 9, minute = 30, second = 5,
          microsecond = 0\<rparr>"

definition w_empty :: world where
  "w_empty = \<lparr>log_file = None, stdout = []\<rparr>"

section \<open>Facts about the string operations\<close>

lemmas ev = u_def readlines_def LF_def CR_def BAR_def strip_def isspace_def Let_def

lemma split_nonempty: "split d s \<noteq> []"
  by (induction s) (auto simp: Let_def)

lemma split_no_sep: "d \<notin> set s \<Longrightarrow> split d s = [s]"
  by (induction s) (auto simp: Let_def)

lemma split_append_sep: "d \<notin> set a \<Longrightarrow> split d (a @ d # b) = a # split d b"
  by (induction a) (auto simp: Let_def)

lemma length_split: "length (split d s) = Suc (length (filter (\<lambda>c. c = d) s))"
proof (induction s)
  case Nil
  show ?case by simp
next
  case (Cons c cs)
  have "split d cs \<noteq> []" by (rule split_nonempty)
  then have "length (tl (split d cs)) = length (split d cs) - 1" by simp
  with Cons show ?case by (auto simp: Let_def)
qed

lemma split_two:
  assumes "BAR \<notin> set a" "BAR \<notin> set b"
  shows "split BAR (a @ BAR # b @ BAR # z) = a # b # split BAR z"
  using assms by (simp add: split_append_sep)

lemma not_isspace_BAR: "\<not> isspace BAR"
  by (simp add: isspace_def BAR_def)

lemma isspace_LF: "isspace LF"
  by (simp add: isspace_def LF_def)

lemma filter_dropWhile_other:
  "\<forall>c. P c \<longrightarrow> \<not> Q c \<Longrightarrow> filter Q (dropWhile P s) = filter Q s"
  by (induction s) auto

lemma filter_strip_BAR: "filter (\<lambda>c. c = BAR) (strip s) = filter (\<lambda>c. c = BAR) s"
proof -
  have ns: "\<forall>c. isspace c \<longrightarrow> \<not> c = BAR" using not_isspace_BAR by auto
  have "filter (\<lambda>c. c = BAR) (strip s) =
        rev (filter (\<lambda>c. c = BAR) (dropWhile isspace (rev (dropWhile isspace s))))"
    by (simp add: strip_def rev_filter)
  also have "\<dots> = rev (filter (\<lambda>c. c = BAR) (rev (dropWhile isspace s)))"
    using filter_dropWhile_other [OF ns] by simp
  also have "\<dots> = filter (\<lambda>c. c = BAR) (dropWhile isspace s)"
    by (simp add: rev_filter)
  also have "\<dots> = filter (\<lambda>c. c = BAR) s"
    using filter_dropWhile_other [OF ns] by simp
  finally show ?thesis .
qed

lemma length_split_strip: "length (split BAR (strip s)) = length (split BAR s)"
  by (simp add: length_split filter_strip_BAR)

lemma strip_bar:
  "strip (a @ BAR # z) = dropWhile isspace a @ BAR # rev (dropWhile isspace (rev z))"
  by (simp add: strip_def dropWhile_append3 not_isspace_BAR)

lemma dropWhile_id: "s = [] \<or> \<not> P (hd s) \<Longrightarrow> dropWhile P s = s"
  by (cases s) auto

lemma translate_newlines_id: "CR \<notin> set s \<Longrightarrow> translate_newlines s = s"
  by (induction s rule: translate_newlines.induct) auto

lemma keepends_line: "LF \<notin> set s \<Longrightarrow> keepends (s @ LF # rest) = (s @ [LF]) # keepends rest"
  by (induction s) auto

lemma set_str_int: "set (str_int n) \<subseteq> {48..57}"
proof (induction n rule: str_int.induct)
  case (1 n)
  show ?case
  proof (cases "n < 10")
    case True
    then show ?thesis by (subst str_int.simps) auto
  next
    case False
    have "n mod 10 < 10" by simp
    then have "48 + n mod 10 \<in> {48..57}" by auto
    with 1 False show ?thesis by (subst str_int.simps) auto
  qed
qed

lemma set_zpad: "set (zpad w n) \<subseteq> {48..57}"
  using set_str_int [of n] by (auto simp: zpad_def)

lemma set_isoformat: "set (isoformat d) \<subseteq> {48..57} \<union> {45, 84, 58, 46}"
  using set_zpad by (auto simp: isoformat_def u_def split: if_splits)

lemma BAR_notin_isoformat: "BAR \<notin> set (isoformat d)"
  using set_isoformat [of d] by (auto simp: BAR_def)

lemma isoformat_no_linebreak: "no_linebreak (isoformat d)"
  using set_isoformat [of d] by (auto simp: no_linebreak_def LF_def CR_def)

lemma isoformat_dt0: "isoformat dt0 = u ''2025-12-15T09:30:05''"
  by code_simp

lemma rq0_fields: "get_ip rq0 = u ''10.0.0.1''" "get_user_agent rq0 = u ''Mozilla/5.0''"
  by (simp_all add: get_ip_def get_user_agent_def rq0_def str_opt_def)

lemma PIXEL_DATA_bytes:
  "PIXEL_DATA =
     [137, 80, 78, 71, 13, 10, 26, 10, 0, 0, 0, 13, 73, 72, 68, 82, 0, 0, 0, 1, 0, 0, 0, 1, 8,
      4, 0, 0, 0, 181, 28, 12, 2, 0, 0, 0, 11, 73, 68, 65, 84, 120, 218, 99, 100, 248, 15, 0,
      1, 5, 1, 1, 39, 24, 227, 102, 0, 0, 0, 0, 73, 69, 78, 68, 174, 66, 96, 130]"
  by (simp add: PIXEL_DATA_def b64decode_def u_def b64_alphabet_def b64_value_def)

section \<open>Facts about the log and its parser\<close>

lemma unique_zero_iff: "unique_emails opens = 0 \<longleftrightarrow> opens = []"
  by (simp add: unique_emails_def)

lemma unique_le_total: "unique_emails opens \<le> total_opens opens"
  using card_length [of "map tracking_id opens"] by (simp add: unique_emails_def total_opens_def)

lemma foldl_rows: "foldl (\<lambda>html e. html @ table_row e) a es = a @ concat (map table_row es)"
  by (induction es arbitrary: a) auto

lemma parse_logs_filter:
  "parse_logs lines =
     map (\<lambda>l. \<lparr>timestamp = split BAR (strip l) ! 0, tracking_id = split BAR (strip l) ! 1,
                ip = split BAR (strip l) ! 2, user_agent = split BAR (strip l) ! 3\<rparr>)
       (filter (\<lambda>l. 4 \<le> length (split BAR l)) lines)"
  by (induction lines) (auto simp: Let_def length_split_strip)

lemma entry_keep: "4 \<le> length (split BAR (log_entry ts tid i ua))"
proof -
  have "3 \<le> length (filter (\<lambda>c. c = BAR) (log_entry ts tid i ua))"
    by (simp add: log_entry_def u_def BAR_def)
  then show ?thesis by (simp add: length_split)
qed

lemma entry_tracking_id:
  assumes "BAR \<notin> set ts" "BAR \<notin> set tid"
  shows "split BAR (strip (log_entry ts tid i ua)) ! 1 = tid"
proof -
  have e: "log_entry ts tid i ua = ts @ BAR # tid @ BAR # (i @ BAR # ua @ [LF])"
    by (simp add: log_entry_def u_def BAR_def)
  have d: "BAR \<notin> set (dropWhile isspace ts)"
    using assms(1) set_dropWhileD by fastforce
  have "strip (log_entry ts tid i ua) =
        dropWhile isspace ts @ BAR # rev (dropWhile isspace (rev (tid @ BAR # (i @ BAR # ua @ [LF]))))"
    unfolding e by (rule strip_bar)
  also have "rev (dropWhile isspace (rev (tid @ BAR # (i @ BAR # ua @ [LF])))) =
        tid @ BAR # rev (dropWhile isspace (rev (i @ BAR # ua @ [LF])))"
    by (simp add: dropWhile_append3 not_isspace_BAR)
  finally have "split BAR (strip (log_entry ts tid i ua)) =
       dropWhile isspace ts # tid # split BAR (rev (dropWhile isspace (rev (i @ BAR # ua @ [LF]))))"
    using split_two [OF d assms(2)] by simp
  then show ?thesis by simp
qed

lemma parse_entry:
  assumes "BAR \<notin> set ts" "BAR \<notin> set tid"
  shows "\<exists>e. parse_logs (log_entry ts tid i ua # ls) = e # parse_logs ls \<and> tracking_id e = tid"
proof -
  have "4 \<le> length (split BAR (strip (log_entry ts tid i ua)))"
    using entry_keep [of ts tid i ua] by (simp add: length_split_strip)
  then show ?thesis using entry_tracking_id [OF assms, of i ua] by (simp add: Let_def)
qed

lemma strip_entry:
  assumes "ts = [] \<or> \<not> isspace (hd ts)" "ua = [] \<or> \<not> isspace (last ua)"
  shows "strip (log_entry ts tid i ua) = ts @ BAR # tid @ BAR # i @ BAR # ua"
proof -
  have e: "log_entry ts tid i ua = ts @ BAR # (tid @ BAR # i @ BAR # ua @ [LF])"
    by (simp add: log_entry_def u_def BAR_def)
  have r: "rev ua = [] \<or> \<not> isspace (hd (rev ua))"
    using assms(2) by (cases "ua = []") (simp_all add: hd_rev)
  have "dropWhile isspace (rev (tid @ BAR # i @ BAR # ua @ [LF])) =
        dropWhile isspace (rev ua @ BAR # rev i @ BAR # rev tid)"
    by (simp add: isspace_LF)
  also have "\<dots> = dropWhile isspace (rev ua) @ BAR # rev i @ BAR # rev tid"
    by (rule dropWhile_append3) (rule not_isspace_BAR)
  also have "\<dots> = rev ua @ BAR # rev i @ BAR # rev tid"
    using dropWhile_id [where P = isspace, OF r] by simp
  finally have "rev (dropWhile isspace (rev (tid @ BAR # i @ BAR # ua @ [LF]))) =
        tid @ BAR # i @ BAR # ua" by simp
  then show ?thesis
    unfolding e strip_bar using dropWhile_id [where P = isspace, OF assms(1)] by simp
qed

lemma entry_line:
  assumes "no_linebreak ts" "no_linebreak tid" "no_linebreak i" "no_linebreak ua"
  shows "\<exists>s. log_entry ts tid i ua = s @ [LF] \<and> no_linebreak s"
proof -
  have "log_entry ts tid i ua = (ts @ BAR # tid @ BAR # i @ BAR # ua) @ [LF]"
    by (simp add: log_entry_def u_def BAR_def)
  moreover have "no_linebreak (ts @ BAR # tid @ BAR # i @ BAR # ua)"
    using assms by (simp add: no_linebreak_def BAR_def LF_def CR_def)
  ultimately show ?thesis by blast
qed

lemma readlines_concat_lines:
  assumes "\<forall>e \<in> set es. \<exists>s. e = s @ [LF] \<and> no_linebreak s"
  shows "readlines (concat es) = es"
proof -
  have "CR \<notin> set (concat es)"
    using assms by (auto simp: no_linebreak_def CR_def LF_def)
  then have t: "translate_newlines (concat es) = concat es"
    by (rule translate_newlines_id)
  have "keepends (concat es) = es"
    using assms
  proof (induction es)
    case Nil
    show ?case by simp
  next
    case (Cons e es)
    then obtain s where s: "e = s @ [LF]" "no_linebreak s" by auto
    have "keepends (concat (e # es)) = keepends (s @ LF # concat es)" using s by simp
    also have "\<dots> = (s @ [LF]) # keepends (concat es)"
      using s(2) by (simp add: keepends_line no_linebreak_def)
    finally show ?case using Cons s by simp
  qed
  with t show ?thesis by (simp add: readlines_def)
qed

lemma readlines_entry:
  assumes "no_linebreak ts" "no_linebreak tid" "no_linebreak i" "no_linebreak ua"
  shows "readlines (log_entry ts tid i ua) = [log_entry ts tid i ua]"
  using readlines_concat_lines [of "[log_entry ts tid i ua]"] entry_line [OF assms] by simp

lemma log_after_requests:
  "log_file (pixel_requests reqs w) =
     (if reqs = [] then log_file w
      else Some ((case log_file w of None \<Rightarrow> [] | Some c \<Rightarrow> c) @ concat (map request_entry reqs)))"
proof (induction reqs arbitrary: w)
  case Nil
  show ?case by simp
next
  case (Cons x reqs)
  obtain tid rq now where x: "x = (tid, rq, now)" by (cases x) auto
  show ?case
    unfolding x by (simp add: Cons track_pixel_def Let_def)
qed

lemma tracking_ids_of_requests:
  assumes "\<forall>(tid, rq, now) \<in> set reqs. BAR \<notin> set tid"
  shows "map tracking_id (parse_logs (map request_entry reqs)) = map fst reqs"
  using assms
proof (induction reqs)
  case Nil
  show ?case by simp
next
  case (Cons x reqs)
  obtain tid rq now where x: "x = (tid, rq, now)" by (cases x) auto
  with Cons.prems have b: "BAR \<notin> set tid" by simp
  obtain e where e: "parse_logs (request_entry x # map request_entry reqs) =
      e # parse_logs (map request_entry reqs)" "tracking_id e = tid"
    using parse_entry [OF BAR_notin_isoformat b, of now "get_ip rq" "get_user_agent rq"
        "map request_entry reqs"]
    unfolding x by auto
  from Cons have "map tracking_id (parse_logs (map request_entry reqs)) = map fst reqs" by simp
  with e show ?case by (simp add: x)
qed

lemma read_log_after_requests:
  assumes fresh: "log_file w0 = None \<or> log_file w0 = Some []"
    and ne: "reqs \<noteq> []"
    and clean: "\<forall>(tid, rq, now) \<in> set reqs.
        no_linebreak tid \<and> no_linebreak (get_ip rq) \<and> no_linebreak (get_user_agent rq)"
  shows "read_log None (pixel_requests reqs w0) = Inr (map request_entry reqs)"
proof -
  have lf: "log_file (pixel_requests reqs w0) = Some (concat (map request_entry reqs))"
    using fresh ne by (auto simp: log_after_requests)
  have "\<forall>e \<in> set (map request_entry reqs). \<exists>s. e = s @ [LF] \<and> no_linebreak s"
  proof
    fix e assume "e \<in> set (map request_entry reqs)"
    then obtain tid rq now where x: "(tid, rq, now) \<in> set reqs" "e = request_entry (tid, rq, now)"
      by auto
    with clean have "no_linebreak tid \<and> no_linebreak (get_ip rq) \<and> no_linebreak (get_user_agent rq)"
      by auto
    then show "\<exists>s. e = s @ [LF] \<and> no_linebreak s"
      using entry_line [OF isoformat_no_linebreak, of tid "get_ip rq" "get_user_agent rq" now] x(2)
      by simp
  qed
  then have "readlines (concat (map request_entry reqs)) = map request_entry reqs"
    by (rule readlines_concat_lines)
  with lf show ?thesis by (simp add: read_log_def)
qed

section \<open>Facts about the stats handler\<close>

lemma read_log_cases:
  "read_log fault w = Inr lines \<longleftrightarrow> fault = None \<and> (\<exists>c. log_file w = Some c \<and> lines = readlines c)"
  "read_log fault w = Inl FileNotFoundError \<longleftrightarrow> fault = None \<and> log_file w = None"
  "read_log fault w = Inl (OtherException m) \<longleftrightarrow> fault = Some m"
  "read_log fault w \<noteq> Inl ZeroDivisionError"
  by (auto simp: read_log_def split: option.splits)

lemma render_ok:
  "opens \<noteq> [] \<Longrightarrow> render r opens =
     Inr (summary (str_int (total_opens opens)) (str_int (unique_emails opens))
            (r (total_opens opens) (unique_emails opens))
          @ concat (map table_row (recent opens)) @ html_end)"
  by (simp add: render_def unique_zero_iff foldl_rows)

lemma render_zero: "render r [] = Inl ZeroDivisionError"
  by (simp add: render_def unique_zero_iff)

lemma view_stats_ok:
  assumes "read_log fault w = Inr lines" "parse_logs lines \<noteq> []"
  shows "view_stats r fault w =
     (Page (summary (str_int (total_opens (parse_logs lines)))
              (str_int (unique_emails (parse_logs lines)))
              (r (total_opens (parse_logs lines)) (unique_emails (parse_logs lines)))
            @ concat (map table_row (recent (parse_logs lines))) @ html_end) 200, w)"
  using assms by (simp add: view_stats_def stats_try_def render_ok)

lemma view_stats_zero:
  assumes "read_log fault w = Inr lines" "parse_logs lines = []"
  shows "view_stats r fault w = (Page (u ''<h1>Error: division by zero</h1>'') 500, w)"
  using assms by (simp add: view_stats_def stats_try_def render_zero u_def)

lemma view_stats_missing:
  assumes "read_log fault w = Inl FileNotFoundError"
  shows "view_stats r fault w = (Page (u ''<h1>No tracking data yet</h1>'') 404, w)"
  using assms by (simp add: view_stats_def stats_try_def)

lemma view_stats_fault:
  assumes "read_log fault w = Inl (OtherException m)"
  shows "view_stats r fault w = (Page (u ''<h1>Error: '' @ m @ u ''</h1>'') 500, w)"
  using assms by (simp add: view_stats_def stats_try_def)

lemma view_stats_world: "snd (view_stats r fault w) = w"
  by (simp add: view_stats_def split: sum.splits exn.splits)

lemma stats_try_cases:
  "stats_try r fault w = Inl ZeroDivisionError \<longleftrightarrow>
     (\<exists>lines. read_log fault w = Inr lines \<and> parse_logs lines = [])"
  "stats_try r fault w = Inl FileNotFoundError \<longleftrightarrow> read_log fault w = Inl FileNotFoundError"
  "stats_try r fault w = Inl (OtherException m) \<longleftrightarrow> read_log fault w = Inl (OtherException m)"
  "(\<exists>html. stats_try r fault w = Inr html) \<longleftrightarrow>
     (\<exists>lines. read_log fault w = Inr lines \<and> parse_logs lines \<noteq> [])"
  using read_log_cases(4) [of fault w]
  by (auto simp: stats_try_def render_def unique_zero_iff split: sum.splits)

lemma length_recent: "length (recent opens) = min 50 (length opens)"
  by (simp add: recent_def)

lemma recent_nth:
  assumes "i < min 50 (length opens)"
  shows "recent opens ! i = opens ! (length opens - 1 - i)"
proof -
  have "recent opens ! i =
        drop (length opens - 50) opens ! (length (drop (length opens - 50) opens) - Suc i)"
    using assms unfolding recent_def by (subst rev_nth) auto
  also have "\<dots> = opens ! (length opens - 1 - i)"
    using assms by (subst nth_drop) (auto intro: arg_cong [where f = "nth opens"])
  finally show ?thesis .
qed

lemma one_line_log:
  "read_log None \<lparr>log_file = Some (u ''t|a|p|ua\<newline>''), stdout = []\<rparr> = Inr [u ''t|a|p|ua\<newline>'']"
  "parse_logs [u ''t|a|p|ua\<newline>''] =
     [\<lparr>timestamp = u ''t'', tracking_id = u ''a'', ip = u ''p'', user_agent = u ''ua''\<rparr>]"
  by (simp_all add: read_log_def ev)

section \<open>Facts about appending a line\<close>

lemma translate_newlines_LF: "translate_newlines (LF # b) = LF # translate_newlines b"
  by (cases b) (simp_all add: LF_def CR_def)

lemma translate_newlines_append_LF:
  "translate_newlines (a @ LF # b) = translate_newlines (a @ [LF]) @ translate_newlines b"
proof (induction a rule: translate_newlines.induct)
  case 1
  show ?case using translate_newlines_LF [of b] translate_newlines_LF [of "[]"] by simp
next
  case (2 c)
  show ?case using translate_newlines_LF [of b] by (simp add: LF_def CR_def)
next
  case (3 c d cs)
  then show ?case by simp
qed

lemma translate_newlines_ends_LF: "\<exists>t. translate_newlines (a @ [LF]) = t @ [LF]"
proof (induction a rule: translate_newlines.induct)
  case 1
  show ?case by (simp add: LF_def CR_def)
next
  case (2 c)
  show ?case by (simp add: LF_def CR_def)
next
  case (3 c d cs)
  then show ?case by (auto simp: LF_def CR_def)
qed

lemma keepends_nonempty: "s \<noteq> [] \<Longrightarrow> keepends s \<noteq> []"
  by (cases s) (auto split: list.splits)

lemma keepends_append_LF: "keepends (t @ LF # y) = keepends (t @ [LF]) @ keepends y"
proof (induction t)
  case Nil
  show ?case by simp
next
  case (Cons c t)
  have ne: "keepends (t @ [LF]) \<noteq> []" by (rule keepends_nonempty) simp
  then obtain l ls where l: "keepends (t @ [LF]) = l # ls" by (cases "keepends (t @ [LF])") auto
  show ?case using Cons l by simp
qed

lemma readlines_append_line:
  assumes old: "old = [] \<or> (\<exists>c. old = c @ [LF])"
    and s: "no_linebreak s"
  shows "readlines (old @ s @ [LF]) = readlines old @ [s @ [LF]]"
proof -
  have cr: "CR \<notin> set (s @ [LF])" using s by (simp add: no_linebreak_def LF_def CR_def)
  have one: "keepends (s @ [LF]) = [s @ [LF]]"
    using keepends_line [of s "[]"] s by (simp add: no_linebreak_def)
  from old show ?thesis
  proof
    assume "old = []"
    then show ?thesis by (simp add: readlines_def translate_newlines_id [OF cr] one)
  next
    assume "\<exists>c. old = c @ [LF]"
    then obtain c where c: "old = c @ [LF]" by blast
    obtain t where t: "translate_newlines (c @ [LF]) = t @ [LF]"
      using translate_newlines_ends_LF by blast
    have "translate_newlines (old @ s @ [LF]) = translate_newlines (c @ [LF]) @ (s @ [LF])"
      using translate_newlines_append_LF [of c "s @ [LF]"] translate_newlines_id [OF cr]
      by (simp add: c)
    then have "readlines (old @ s @ [LF]) = keepends (t @ LF # (s @ [LF]))"
      by (simp add: readlines_def t)
    also have "\<dots> = keepends (t @ [LF]) @ keepends (s @ [LF])"
      by (rule keepends_append_LF)
    also have "\<dots> = readlines old @ [s @ [LF]]"
      by (simp add: readlines_def c t one)
    finally show ?thesis .
  qed
qed

section \<open>Facts about the float arithmetic\<close>

lemma ilog2_bounds: "0 < n \<Longrightarrow> 2 ^ ilog2 n \<le> n \<and> n < 2 ^ (ilog2 n + 1)"
proof (induction n rule: ilog2.induct)
  case (1 n)
  show ?case
  proof (cases "n < 2")
    case True
    with 1(2) have "n = 1" by simp
    then show ?thesis by (simp add: ilog2.simps)
  next
    case False
    then have h: "0 < n div 2" by simp
    from 1(1) [OF False h] have ih: "2 ^ ilog2 (n div 2) \<le> n div 2" "n div 2 < 2 ^ (ilog2 (n div 2) + 1)"
      by simp_all
    have e: "ilog2 n = ilog2 (n div 2) + 1" using False by (subst ilog2.simps) simp
    from ih show ?thesis unfolding e by auto
  qed
qed

lemma ilog2_unique:
  assumes "2 ^ e \<le> k" "k < 2 ^ (e + 1)"
  shows "ilog2 k = e"
proof -
  have k: "0 < k" using assms(1) by (metis gr0I not_le zero_less_numeral zero_less_power)
  note b = ilog2_bounds [OF k]
  have "\<not> ilog2 k < e"
  proof
    assume "ilog2 k < e"
    then have "(2::nat) ^ (ilog2 k + 1) \<le> 2 ^ e" by (intro power_increasing) auto
    with b assms(1) show False by linarith
  qed
  moreover have "\<not> e < ilog2 k"
  proof
    assume "e < ilog2 k"
    then have "(2::nat) ^ (e + 1) \<le> 2 ^ ilog2 k" by (intro power_increasing) auto
    with b assms(2) show False by linarith
  qed
  ultimately show ?thesis by simp
qed

lemma pow2_less_exp: "(2::nat) ^ e < 2 ^ m \<Longrightarrow> e < m"
proof (rule ccontr)
  assume a: "(2::nat) ^ e < 2 ^ m" and n: "\<not> e < m"
  from n have "(2::nat) ^ m \<le> 2 ^ e" by (intro power_increasing) auto
  with a show False by linarith
qed

lemma ilog2_less_53: "0 < k \<Longrightarrow> k < 2 ^ 53 \<Longrightarrow> ilog2 k \<le> 52"
proof -
  assume k: "0 < k" "k < 2 ^ 53"
  have "2 ^ ilog2 k \<le> k" using ilog2_bounds [OF k(1)] by (rule conjunct1)
  then have "(2::nat) ^ ilog2 k < 2 ^ 53" using k(2) by (rule le_less_trans)
  then have "ilog2 k < 53" by (rule pow2_less_exp)
  then show ?thesis by simp
qed

lemma ilog2_mono: "0 < a \<Longrightarrow> a \<le> b \<Longrightarrow> ilog2 a \<le> ilog2 b"
proof (rule ccontr)
  assume a: "0 < a" "a \<le> b" and n: "\<not> ilog2 a \<le> ilog2 b"
  then have "(2::nat) ^ (ilog2 b + 1) \<le> 2 ^ ilog2 a" by (intro power_increasing) auto
  moreover have "b < 2 ^ (ilog2 b + 1)" using ilog2_bounds [of b] a by simp
  moreover have "2 ^ ilog2 a \<le> a" using ilog2_bounds [of a] a by simp
  ultimately show False using a(2) by linarith
qed

lemma floor_log2_ge1:
  assumes q: "0 < q" and pq: "q \<le> p"
  shows "\<exists>e. floor_log2 p q = int e \<and> q * 2 ^ e \<le> p \<and> p < q * 2 ^ (e + 1)"
proof -
  have p: "0 < p" using q pq by simp
  define a where "a = ilog2 p"
  define b where "b = ilog2 q"
  have ba: "b \<le> a" unfolding a_def b_def by (rule ilog2_mono [OF q pq])
  have pa: "2 ^ a \<le> p" "p < 2 ^ (a + 1)" using ilog2_bounds [OF p] by (simp_all add: a_def)
  have qb: "2 ^ b \<le> q" "q < 2 ^ (b + 1)" using ilog2_bounds [OF q] by (simp_all add: b_def)
  define d where "d = a - b"
  have ad: "a = b + d" using ba by (simp add: d_def)
  have dd: "int (ilog2 p) - int (ilog2 q) = int d" using ba by (simp add: d_def a_def b_def)
  show ?thesis
  proof (cases "q * 2 ^ d \<le> p")
    case True
    have "p < 2 ^ b * 2 ^ (d + 1)" using pa(2) by (simp add: ad power_add)
    also have "\<dots> \<le> q * 2 ^ (d + 1)" using qb(1) by (intro mult_right_mono) auto
    finally have "p < q * 2 ^ (d + 1)" .
    moreover have "floor_log2 p q = int d" using True by (simp add: floor_log2_def dd Let_def)
    ultimately show ?thesis using True by blast
  next
    case False
    have d0: "d \<noteq> 0" using False pq by (cases "d = 0") auto
    then obtain e where e: "d = e + 1" by (cases d) auto
    have "q * 2 ^ e < 2 ^ (b + 1) * 2 ^ e" using qb(2) by (intro mult_strict_right_mono) auto
    also have "\<dots> = 2 ^ a" by (simp add: ad e power_add)
    finally have "q * 2 ^ e \<le> p" using pa(1) by linarith
    moreover have "p < q * 2 ^ (e + 1)" using False e by simp
    moreover have "floor_log2 p q = int e"
    proof -
      have n1: "nat (1 + int e) = e + 1" by simp
      show ?thesis using False by (simp add: floor_log2_def dd Let_def e n1 del: power_Suc)
    qed
    ultimately show ?thesis by blast
  qed
qed

lemma round_half_even_exact: "0 < b \<Longrightarrow> round_half_even (k * b) b = k"
  by (simp add: round_half_even_def)

lemma to_double_exact:
  assumes q: "0 < q" and k: "0 < k" "k < 2 ^ 53"
  shows "to_double (k * q) q = (k * 2 ^ (52 - ilog2 k), int (ilog2 k) - 52)"
proof -
  have "q \<le> k * q" using k(1) by simp
  from floor_log2_ge1 [OF q this] obtain e where
    e: "floor_log2 (k * q) q = int e" "q * 2 ^ e \<le> k * q" "k * q < q * 2 ^ (e + 1)"
    by blast
  have "2 ^ e \<le> k" using e(2) q by (simp add: mult.commute)
  moreover have "k < 2 ^ (e + 1)" using e(3) q by (simp add: mult.commute)
  ultimately have ek: "ilog2 k = e" by (rule ilog2_unique)
  have e52: "e \<le> 52" using ilog2_less_53 [OF k] ek by simp
  show ?thesis
  proof (cases "e = 52")
    case True
    then show ?thesis
      using round_half_even_exact [OF q, of k] by (simp add: to_double_def e(1) ek)
  next
    case False
    with e52 have lt: "e < 52" by simp
    then have n: "nat (52 - int e) = 52 - e" by simp
    have "round_half_even (k * q * 2 ^ (52 - e)) q = k * 2 ^ (52 - e)"
      using round_half_even_exact [OF q, of "k * 2 ^ (52 - e)"] by (simp add: mult_ac)
    then show ?thesis using lt by (simp add: to_double_def e(1) ek Let_def n)
  qed
qed

lemma format_1f_shape:
  "\<exists>a b. b < 10 \<and> format_1f d = str_int a @ u ''.'' @ [48 + b]"
proof -
  have "format_1f d = str_int (tenths d div 10) @ u ''.'' @ str_int (tenths d mod 10)"
    by (simp add: format_1f_def Let_def)
  moreover have "str_int (tenths d mod 10) = [48 + tenths d mod 10]"
    by (subst str_int.simps) simp
  moreover have "tenths d mod 10 < 10" by simp
  ultimately show ?thesis by metis
qed

lemma tenths_exact: "tenths (K * 2 ^ s, - int s) = K * 10"
proof (cases "s = 0")
  case True
  then show ?thesis by (simp add: tenths_def)
next
  case False
  have "round_half_even (K * 10 * 2 ^ s) (2 ^ s) = K * 10"
    by (rule round_half_even_exact) simp
  then show ?thesis using False by (simp add: tenths_def mult_ac)
qed

lemma format_1f_exact: "format_1f (K * 2 ^ s, - int s) = str_int K @ u ''.0''"
proof -
  have z: "str_int 0 = [48]" by (subst str_int.simps) simp
  show ?thesis by (simp add: format_1f_def Let_def tenths_exact z u_def)
qed

lemma open_rate_exact:
  assumes n: "0 < n" and k: "0 < k" "k * 100 < 2 ^ 53"
  shows "open_rate (k * n) n = str_int (k * 100) @ u ''.0''"
proof -
  have k53: "k < 2 ^ 53" using k(2) by simp
  define s where "s = 52 - ilog2 k"
  have e: "ilog2 k \<le> 52" by (rule ilog2_less_53 [OF k(1) k53])
  have td: "true_div (k * n) n = (k * 2 ^ s, - int s)"
    using to_double_exact [OF n k(1) k53] e by (simp add: true_div_def s_def)
  define K where "K = k * 100"
  have K: "0 < K" "K < 2 ^ 53" using k by (simp_all add: K_def)
  define s' where "s' = 52 - ilog2 K"
  have e': "ilog2 K \<le> 52" by (rule ilog2_less_53 [OF K])
  have fm: "float_mul (k * 2 ^ s, - int s) 100 = (K * 2 ^ s', - int s')"
  proof (cases "s = 0")
    case True
    then show ?thesis
      using to_double_exact [of 1 K, OF _ K] e' by (simp add: float_mul_def K_def s'_def)
  next
    case False
    have "to_double (K * 2 ^ s) (2 ^ s) = (K * 2 ^ s', - int s')"
      using to_double_exact [of "2 ^ s" K, OF _ K] e' by (simp add: s'_def)
    then show ?thesis using False by (simp add: float_mul_def K_def mult_ac)
  qed
  show ?thesis
    unfolding open_rate_def td fm K_def [symmetric] by (rule format_1f_exact)
qed

lemma open_rate_3_2: "open_rate 3 2 = u ''150.0''"
  by (simp add: open_rate_def true_div_def float_mul_def format_1f_def tenths_def to_double_def floor_log2_def
      round_half_even_def ilog2.simps str_int.simps u_def Let_def)

lemma open_rate_4_3: "open_rate 4 3 = u ''133.3''"
  by (simp add: open_rate_def true_div_def float_mul_def format_1f_def tenths_def to_double_def floor_log2_def
      round_half_even_def ilog2.simps str_int.simps u_def Let_def)

lemma open_rate_1001_1000: "open_rate 1001 1000 = u ''100.1''"
  by (simp add: open_rate_def true_div_def float_mul_def format_1f_def tenths_def to_double_def floor_log2_def
      round_half_even_def ilog2.simps str_int.simps u_def Let_def)

lemma rhe_error:
  assumes b: "0 < b"
  shows "\<bar>real (round_half_even a b) - real a / real b\<bar> \<le> 1 / 2"
proof -
  define q where "q = a div b"
  define r where "r = a mod b"
  have a: "a = q * b + r" by (simp add: q_def r_def)
  have rb: "r < b" using b by (simp add: r_def)
  have ra: "real a / real b = real q + real r / real b"
    using b by (simp add: a field_simps)
  have rp: "0 \<le> real r / real b" by simp
  consider (lo) "2 * r < b" | (hi) "b < 2 * r" | (tie) "2 * r = b" by linarith
  then show ?thesis
  proof cases
    case lo
    then have "round_half_even a b = q" by (simp add: round_half_even_def q_def r_def Let_def)
    moreover have "real r / real b \<le> 1 / 2" using lo b by (simp add: field_simps)
    ultimately show ?thesis using rp by (simp add: ra)
  next
    case hi
    then have "round_half_even a b = q + 1" by (simp add: round_half_even_def q_def r_def Let_def)
    moreover have "1 / 2 \<le> real r / real b" using hi b by (simp add: field_simps)
    moreover have "real r / real b \<le> 1" using rb b by (simp add: field_simps)
    ultimately show ?thesis by (simp add: ra)
  next
    case tie
    then have h: "real r / real b = 1 / 2" using b by (simp add: field_simps)
    from tie have "round_half_even a b = q \<or> round_half_even a b = q + 1"
      by (simp add: round_half_even_def q_def r_def Let_def)
    then show ?thesis by (auto simp: ra h)
  qed
qed

lemma scale_abs:
  fixes a b c h :: real
  assumes "0 < c" "\<bar>a - b / c\<bar> \<le> h"
  shows "\<bar>a * c - b\<bar> \<le> h * c"
proof -
  have "a * c - b = (a - b / c) * c" using assms(1) by (simp add: field_simps)
  then have "\<bar>a * c - b\<bar> = \<bar>a - b / c\<bar> * c" using assms(1) by (simp add: abs_mult)
  also have "\<dots> \<le> h * c" using assms by (intro mult_right_mono) simp_all
  finally show ?thesis .
qed

lemma unscale_abs:
  fixes a b c h :: real
  assumes "0 < c" "\<bar>a - b * c\<bar> \<le> h"
  shows "\<bar>a / c - b\<bar> \<le> h / c"
proof -
  have "a / c - b = (a - b * c) / c" using assms(1) by (simp add: field_simps)
  then have "\<bar>a / c - b\<bar> = \<bar>a - b * c\<bar> / c" using assms(1) by simp
  also have "\<dots> \<le> h / c" using assms by (intro divide_right_mono) simp_all
  finally show ?thesis .
qed

lemma to_double_error:
  assumes q: "0 < q" and pq: "q \<le> p"
  shows "\<bar>dval (to_double p q) - real p / real q\<bar> \<le> (real p / real q) / 2 ^ 53"
proof -
  from floor_log2_ge1 [OF q pq] obtain e where
    e: "floor_log2 p q = int e" "q * 2 ^ e \<le> p" "p < q * 2 ^ (e + 1)" by blast
  have lo: "2 ^ e \<le> real p / real q"
  proof -
    have "real q * 2 ^ e \<le> real p" using e(2) by (metis of_nat_le_iff of_nat_mult of_nat_numeral of_nat_power)
    then show ?thesis using q by (simp add: field_simps)
  qed
  show ?thesis
  proof (cases "52 \<le> e")
    case True
    define x where "x = e - 52"
    have ex: "e = x + 52" using True by (simp add: x_def)
    have td: "to_double p q = (round_half_even p (q * 2 ^ x), int x)"
      by (simp add: to_double_def e(1) ex)
    have "\<bar>real (round_half_even p (q * 2 ^ x)) - real p / real (q * 2 ^ x)\<bar> \<le> 1 / 2"
      by (rule rhe_error) (use q in simp)
    then have "\<bar>real (round_half_even p (q * 2 ^ x)) - (real p / real q) / 2 ^ x\<bar> \<le> 1 / 2"
      by (simp add: field_simps)
    then have "\<bar>real (round_half_even p (q * 2 ^ x)) * 2 ^ x - real p / real q\<bar> \<le> 1 / 2 * 2 ^ x"
      by (intro scale_abs) simp_all
    then have "\<bar>real (round_half_even p (q * 2 ^ x)) * 2 ^ x - real p / real q\<bar> \<le> 2 ^ x / 2"
      by simp
    moreover have "(2::real) ^ x / 2 \<le> (real p / real q) / 2 ^ 53"
    proof -
      have "(2::real) ^ x / 2 = 2 ^ e / 2 ^ 53" by (simp add: ex power_add)
      also have "\<dots> \<le> (real p / real q) / 2 ^ 53" using lo by (intro divide_right_mono) simp_all
      finally show ?thesis .
    qed
    ultimately show ?thesis by (simp add: td dval_def)
  next
    case False
    define s where "s = 52 - e"
    have es: "e + s = 52" "0 < s" using False by (simp_all add: s_def)
    have n: "nat (52 - int e) = s" using False by (simp add: s_def)
    have td: "to_double p q = (round_half_even (p * 2 ^ s) q, - int s)"
      using False es by (simp add: to_double_def e(1) Let_def n)
    have "\<bar>real (round_half_even (p * 2 ^ s) q) - real (p * 2 ^ s) / real q\<bar> \<le> 1 / 2"
      by (rule rhe_error [OF q])
    then have "\<bar>real (round_half_even (p * 2 ^ s) q) - (real p / real q) * 2 ^ s\<bar> \<le> 1 / 2"
      by (simp add: field_simps)
    then have "\<bar>real (round_half_even (p * 2 ^ s) q) / 2 ^ s - real p / real q\<bar> \<le> 1 / 2 / 2 ^ s"
      by (intro unscale_abs) simp_all
    moreover have "1 / 2 / (2::real) ^ s \<le> (real p / real q) / 2 ^ 53"
    proof -
      have "(2::real) ^ 52 = 2 ^ e * 2 ^ s" using es(1) by (simp add: power_add [symmetric])
      then have "1 / 2 / (2::real) ^ s = 2 ^ e / 2 ^ 53" by (simp add: field_simps)
      also have "\<dots> \<le> (real p / real q) / 2 ^ 53" using lo by (intro divide_right_mono) simp_all
      finally show ?thesis .
    qed
    ultimately show ?thesis using es(2) by (simp add: td dval_def)
  qed
qed


lemma dval_nonneg: "0 \<le> dval d"
  by (cases d) (simp add: dval_def)

lemma float_mul_error:
  assumes "1 \<le> 100 * dval d"
  shows "\<bar>dval (float_mul d 100) - 100 * dval d\<bar> \<le> 100 * dval d / 2 ^ 53"
proof -
  obtain m x where d: "d = (m, x)" by (cases d)
  show ?thesis
  proof (cases "0 \<le> x")
    case True
    have v: "real (m * 100 * 2 ^ nat x) / real 1 = 100 * dval d"
      using True by (simp add: d dval_def)
    have "1 \<le> real (m * 100 * 2 ^ nat x)" using assms v by simp
    then have p: "(1::nat) \<le> m * 100 * 2 ^ nat x" by (simp only: of_nat_le_iff [symmetric] of_nat_1)
    from to_double_error [of 1 "m * 100 * 2 ^ nat x", OF _ p] show ?thesis
      unfolding v using True by (simp add: float_mul_def d)
  next
    case False
    define s where "s = nat (- x)"
    have v: "real (m * 100) / real (2 ^ s) = 100 * dval d"
      using False by (simp add: d dval_def s_def)
    have "1 \<le> real (m * 100) / real (2 ^ s)" using assms v by simp
    then have "real (2 ^ s) \<le> real (m * 100)" by (simp add: field_simps)
    then have p: "(2::nat) ^ s \<le> m * 100" by (simp only: of_nat_le_iff)
    from to_double_error [of "2 ^ s" "m * 100", OF _ p] show ?thesis
      unfolding v using False by (simp add: float_mul_def d s_def)
  qed
qed

lemma tenths_error: "\<bar>real (tenths d) / 10 - dval d\<bar> \<le> 1 / 20"
proof -
  obtain m x where d: "d = (m, x)" by (cases d)
  show ?thesis
  proof (cases "0 \<le> x")
    case True
    then show ?thesis by (simp add: d tenths_def dval_def)
  next
    case False
    define s where "s = nat (- x)"
    have "\<bar>real (round_half_even (m * 10) (2 ^ s)) - real (m * 10) / real (2 ^ s)\<bar> \<le> 1 / 2"
      by (rule rhe_error) simp
    then have "\<bar>real (round_half_even (m * 10) (2 ^ s)) - (real m / 2 ^ s) * 10\<bar> \<le> 1 / 2"
      by (simp add: field_simps)
    then have "\<bar>real (round_half_even (m * 10) (2 ^ s)) / 10 - real m / 2 ^ s\<bar> \<le> 1 / 2 / 10"
      by (intro unscale_abs) simp_all
    then show ?thesis using False by (simp add: d tenths_def dval_def s_def)
  qed
qed

lemma open_rate_error:
  assumes n: "0 < n" and tn: "n \<le> t"
  shows "\<bar>real (tenths (float_mul (true_div t n) 100)) / 10 - real t / real n * 100\<bar>
           \<le> 1 / 20 + 300 * (real t / real n) / 2 ^ 53"
proof -
  define q where "q = real t / real n"
  define x1 where "x1 = dval (true_div t n)"
  define x2 where "x2 = dval (float_mul (true_div t n) 100)"
  define k where "k = real (tenths (float_mul (true_div t n) 100)) / 10"
  define eps where "eps = (1::real) / 2 ^ 53"
  have q1: "1 \<le> q" using n tn by (simp add: q_def)
  have eps: "0 < eps" "eps \<le> 1 / 2" by (simp_all add: eps_def)
  have e1: "\<bar>x1 - q\<bar> \<le> q * eps"
    using to_double_error [OF n tn] by (simp add: x1_def q_def true_div_def eps_def)
  have x1lo: "q * (1 - eps) \<le> x1" and x1hi: "x1 \<le> q * (1 + eps)"
    using e1 by (simp_all add: algebra_simps abs_le_iff)
  have "1 / 2 \<le> q * (1 - eps)"
  proof -
    have "1 * (1 / 2) \<le> q * (1 - eps)" using q1 eps by (intro mult_mono) simp_all
    then show ?thesis by simp
  qed
  with x1lo have "1 \<le> 100 * x1" by simp
  then have e2: "\<bar>x2 - 100 * x1\<bar> \<le> 100 * x1 * eps"
    using float_mul_error [of "true_div t n"] by (simp add: x1_def x2_def eps_def)
  have e3: "\<bar>k - x2\<bar> \<le> 1 / 20"
    using tenths_error [of "float_mul (true_div t n) 100"] by (simp add: k_def x2_def)
  define A where "A = q * eps"
  define B where "B = x1 * eps"
  have "x1 * eps \<le> (q * (1 + eps)) * eps"
    using x1hi eps by (intro mult_right_mono) simp_all
  also have "\<dots> \<le> (q * 2) * eps"
    using q1 eps by (intro mult_right_mono mult_left_mono) simp_all
  finally have b2: "B \<le> 2 * A" by (simp add: A_def B_def)
  have f1: "x1 - q \<le> A" "- (x1 - q) \<le> A"
    using abs_le_D1 [OF e1] abs_le_D2 [OF e1] by (simp_all add: A_def)
  have e2': "\<bar>x2 - 100 * x1\<bar> \<le> 100 * B" using e2 by (simp add: B_def)
  have f2: "x2 - 100 * x1 \<le> 100 * B" "- (x2 - 100 * x1) \<le> 100 * B"
    using abs_le_D1 [OF e2'] abs_le_D2 [OF e2'] by simp_all
  have f3: "k - x2 \<le> 1 / 20" "- (k - x2) \<le> 1 / 20"
    using abs_le_D1 [OF e3] abs_le_D2 [OF e3] by simp_all
  have "\<bar>k - q * 100\<bar> \<le> 1 / 20 + 300 * A"
    using f1 f2 f3 b2 by (intro abs_leI) linarith+
  also have "1 / 20 + 300 * A = 1 / 20 + 300 * q / 2 ^ 53" by (simp add: A_def eps_def)
  finally show ?thesis by (simp add: k_def q_def)
qed

section \<open>The claims\<close>

text \<open>
  Claim C1. Whatever the tracking id, the request (with or without the
  \<open>X-Forwarded-For\<close> and \<open>User-Agent\<close> headers), the clock and the world, and whether the
  append to the log goes through or raises, the pixel handler returns the same response:
  the fixed PNG bytes, sent with mimetype \<open>image/png\<close>. A failed write changes nothing in
  the response; it only prints one diagnostic line.
\<close>

theorem track_pixel_fixed_response:
  "fst (track_pixel tid rq now oc w) = SendFile PIXEL_DATA (u ''image/png'') False \<and>
   fst (track_pixel tid rq now (Failed m left) w) = fst (track_pixel tid rq now Written w) \<and>
   stdout (snd (track_pixel tid rq now (Failed m left) w)) = stdout w @ [u ''Error logging: '' @ m] \<and>
   PIXEL_DATA =
     [137, 80, 78, 71, 13, 10, 26, 10, 0, 0, 0, 13, 73, 72, 68, 82, 0, 0, 0, 1, 0, 0, 0, 1, 8,
      4, 0, 0, 0, 181, 28, 12, 2, 0, 0, 0, 11, 73, 68, 65, 84, 120, 218, 99, 100, 248, 15, 0,
      1, 5, 1, 1, 39, 24, 227, 102, 0, 0, 0, 0, 73, 69, 78, 68, 174, 66, 96, 130]"
  by (simp add: track_pixel_def Let_def PIXEL_DATA_bytes)

text \<open>
  Claim C2, as amended. \<open>total_opens\<close> is the number of parsed records and
  \<open>unique_emails\<close> the number of distinct \<open>tracking_id\<close> values among them. After
  \<open>N \<ge> 1\<close> pixel requests whose appends went through, on a log that was absent or
  empty, where no tracking id contains \<open>|\<close> and no tracking id, address or user agent
  contains a line break, the stats handler reads back the \<open>N\<close> lines written and its page
  shows \<open>total_opens = N\<close> and \<open>unique_emails\<close> = the number of distinct tracking ids
  requested: \<open>N\<close> when they are pairwise distinct, \<open>1\<close> when they are all the same.
\<close>

theorem stats_after_pixel_requests:
  assumes fresh: "log_file w0 = None \<or> log_file w0 = Some []"
    and ne: "reqs \<noteq> []"
    and clean: "\<forall>(tid, rq, now) \<in> set reqs.
        BAR \<notin> set tid \<and> no_linebreak tid \<and> no_linebreak (get_ip rq) \<and>
        no_linebreak (get_user_agent rq)"
  shows "total_opens opens = length opens \<and>
    unique_emails opens = card (tracking_id ` set opens) \<and>
    read_log None (pixel_requests reqs w0) = Inr (map request_entry reqs) \<and>
    total_opens (parse_logs (map request_entry reqs)) = length reqs \<and>
    unique_emails (parse_logs (map request_entry reqs)) = card (fst ` set reqs) \<and>
    fst (view_stats r None (pixel_requests reqs w0)) =
      Page (summary (str_int (length reqs)) (str_int (card (fst ` set reqs)))
              (r (length reqs) (card (fst ` set reqs)))
            @ concat (map table_row (recent (parse_logs (map request_entry reqs)))) @ html_end) 200 \<and>
    (distinct (map fst reqs) \<longrightarrow>
       unique_emails (parse_logs (map request_entry reqs)) = length reqs) \<and>
    ((\<forall>x \<in> set reqs. fst x = t) \<longrightarrow>
       unique_emails (parse_logs (map request_entry reqs)) = 1)"
proof -
  have c1: "\<forall>(tid, rq, now) \<in> set reqs. BAR \<notin> set tid" using clean by auto
  have c2: "\<forall>(tid, rq, now) \<in> set reqs.
        no_linebreak tid \<and> no_linebreak (get_ip rq) \<and> no_linebreak (get_user_agent rq)"
    using clean by auto
  have defs: "total_opens opens = length opens"
    "unique_emails opens = card (tracking_id ` set opens)"
    by (simp_all add: total_opens_def unique_emails_def)
  have ids: "map tracking_id (parse_logs (map request_entry reqs)) = map fst reqs"
    by (rule tracking_ids_of_requests [OF c1])
  have rl: "read_log None (pixel_requests reqs w0) = Inr (map request_entry reqs)"
    by (rule read_log_after_requests [OF fresh ne c2])
  have tot: "total_opens (parse_logs (map request_entry reqs)) = length reqs"
    using arg_cong [OF ids, of length] by (simp add: total_opens_def)
  have uni: "unique_emails (parse_logs (map request_entry reqs)) = card (fst ` set reqs)"
    by (simp add: unique_emails_def ids)
  have pne: "parse_logs (map request_entry reqs) \<noteq> []"
    using tot ne by (auto simp: total_opens_def)
  have page: "fst (view_stats r None (pixel_requests reqs w0)) =
      Page (summary (str_int (length reqs)) (str_int (card (fst ` set reqs)))
              (r (length reqs) (card (fst ` set reqs)))
            @ concat (map table_row (recent (parse_logs (map request_entry reqs)))) @ html_end) 200"
    using view_stats_ok [OF rl pne, of r] by (simp add: tot uni)
  have d: "distinct (map fst reqs) \<longrightarrow>
       unique_emails (parse_logs (map request_entry reqs)) = length reqs"
    using distinct_card [of "map fst reqs"] by (auto simp: uni)
  have s: "(\<forall>x \<in> set reqs. fst x = t) \<longrightarrow>
       unique_emails (parse_logs (map request_entry reqs)) = 1"
  proof
    assume a: "\<forall>x \<in> set reqs. fst x = t"
    have "fst ` set reqs = {t}" using a ne by (cases reqs) auto
    then show "unique_emails (parse_logs (map request_entry reqs)) = 1" by (simp add: uni)
  qed
  from defs rl tot uni page d s show ?thesis by blast
qed

theorem stats_after_pixel_requests_witness:
  "fst (view_stats (\<lambda>t n. []) None
      (pixel_requests [(u ''a'', rq0, dt0), (u ''b'', rq0, dt0)] w_empty)) =
   Page (summary (str_int 2) (str_int 2) []
         @ concat (map table_row (recent (parse_logs
             (map request_entry [(u ''a'', rq0, dt0), (u ''b'', rq0, dt0)])))) @ html_end) 200 \<and>
   unique_emails (parse_logs (map request_entry [(u ''a'', rq0, dt0), (u ''b'', rq0, dt0)])) = 2"
proof -
  have f: "log_file w_empty = None \<or> log_file w_empty = Some []" by (simp add: w_empty_def)
  have n: "[(u ''a'', rq0, dt0), (u ''b'', rq0, dt0)] \<noteq> []" by simp
  have c: "\<forall>(tid, rq, now) \<in> set [(u ''a'', rq0, dt0), (u ''b'', rq0, dt0)].
        BAR \<notin> set tid \<and> no_linebreak tid \<and> no_linebreak (get_ip rq) \<and>
        no_linebreak (get_user_agent rq)"
    by (simp add: rq0_fields no_linebreak_def u_def BAR_def LF_def CR_def)
  have k: "card (fst ` set [(u ''a'', rq0, dt0), (u ''b'', rq0, dt0)]) = 2"
    by (simp add: u_def)
  have l: "length [(u ''a'', rq0, dt0), (u ''b'', rq0, dt0)] = 2" by simp
  have d: "distinct (map fst [(u ''a'', rq0, dt0), (u ''b'', rq0, dt0)])" by (simp add: u_def)
  note th = stats_after_pixel_requests [OF f n c, of "[]" "\<lambda>t n. []" "u ''a''"]
  note page = th [THEN conjunct2, THEN conjunct2, THEN conjunct2, THEN conjunct2,
      THEN conjunct2, THEN conjunct1]
  note dist = th [THEN conjunct2, THEN conjunct2, THEN conjunct2, THEN conjunct2,
      THEN conjunct2, THEN conjunct2, THEN conjunct1, rule_format, OF d]
  from page dist show ?thesis by (simp only: k l simp_thms)
qed

theorem stats_after_pixel_requests_counterexample:
  "distinct [u ''a|b'', u ''a|c''] \<and>
   read_log None (pixel_requests [(u ''a|b'', rq0, dt0), (u ''a|c'', rq0, dt0)] w_empty) =
     Inr [u ''2025-12-15T09:30:05|a|b|10.0.0.1|Mozilla/5.0\<newline>'',
          u ''2025-12-15T09:30:05|a|c|10.0.0.1|Mozilla/5.0\<newline>''] \<and>
   total_opens (parse_logs [u ''2025-12-15T09:30:05|a|b|10.0.0.1|Mozilla/5.0\<newline>'',
          u ''2025-12-15T09:30:05|a|c|10.0.0.1|Mozilla/5.0\<newline>'']) = 2 \<and>
   unique_emails (parse_logs [u ''2025-12-15T09:30:05|a|b|10.0.0.1|Mozilla/5.0\<newline>'',
          u ''2025-12-15T09:30:05|a|c|10.0.0.1|Mozilla/5.0\<newline>'']) = 1"
  by (simp add: ev track_pixel_def log_entry_def read_log_def w_empty_def isoformat_dt0 rq0_fields
      total_opens_def unique_emails_def)

text \<open>
  Claim C3, as amended. The parser keeps exactly the lines that have at least four parts
  when split on \<open>|\<close>, in their order. The record of a kept line holds the first four
  parts of the line after its leading and trailing whitespace (the line terminator
  included) has been stripped; later parts are dropped. Stripping never changes
  the number of parts. A line with fewer than four parts adds nothing: the parsed
  records, \<open>total_opens\<close> and \<open>unique_emails\<close> are those of the log without that line.
\<close>

theorem parse_logs_four_parts:
  "parse_logs lines =
     map (\<lambda>l. \<lparr>timestamp = split BAR (strip l) ! 0, tracking_id = split BAR (strip l) ! 1,
                ip = split BAR (strip l) ! 2, user_agent = split BAR (strip l) ! 3\<rparr>)
       (filter (\<lambda>l. 4 \<le> length (split BAR l)) lines) \<and>
   length (split BAR (strip l)) = length (split BAR l) \<and>
   (length (split BAR l) < 4 \<longrightarrow>
      parse_logs (xs @ l # ys) = parse_logs (xs @ ys) \<and>
      total_opens (parse_logs (xs @ l # ys)) = total_opens (parse_logs (xs @ ys)) \<and>
      unique_emails (parse_logs (xs @ l # ys)) = unique_emails (parse_logs (xs @ ys)))"
  using parse_logs_filter [of lines]
  by (simp add: length_split_strip parse_logs_filter [of "xs @ l # ys"]
        parse_logs_filter [of "xs @ ys"])

theorem parse_logs_four_parts_witness:
  "length (split BAR (u ''a|b'')) = 2 \<and>
   parse_logs [u ''t|x|p|ua|extra\<newline>'', u ''a|b'', u ''s|y|q|ub''] =
   parse_logs [u ''t|x|p|ua|extra\<newline>'', u ''s|y|q|ub''] \<and>
   parse_logs [u ''t|x|p|ua|extra\<newline>'', u ''s|y|q|ub''] =
     [\<lparr>timestamp = u ''t'', tracking_id = u ''x'', ip = u ''p'', user_agent = u ''ua''\<rparr>,
      \<lparr>timestamp = u ''s'', tracking_id = u ''y'', ip = u ''q'', user_agent = u ''ub''\<rparr>]"
  using parse_logs_four_parts [where l = "u ''a|b''" and xs = "[u ''t|x|p|ua|extra\<newline>'']"
      and ys = "[u ''s|y|q|ub'']" and lines = "[u ''t|x|p|ua|extra\<newline>'', u ''s|y|q|ub'']"]
  by (simp add: ev)

theorem parse_logs_four_parts_counterexample:
  "4 \<le> length (split BAR (u ''t|i|p|ua '')) \<and>
   parse_logs [u ''t|i|p|ua ''] \<noteq>
     [\<lparr>timestamp = split BAR (u ''t|i|p|ua '') ! 0, tracking_id = split BAR (u ''t|i|p|ua '') ! 1,
       ip = split BAR (u ''t|i|p|ua '') ! 2, user_agent = split BAR (u ''t|i|p|ua '') ! 3\<rparr>]"
  by (simp add: ev)

text \<open>
  Claim C4, as amended. When the timestamp, tracking id, address and user agent contain
  no \<open>|\<close> and no line break (\<open>\n\<close> or \<open>\r\<close>), the timestamp does not begin with
  whitespace and the user agent does not end with whitespace, reading and parsing the
  line that the pixel handler formats gives exactly one record, with the four original
  values. Nothing is escaped, and the equality fails for a tracking id that contains
  \<open>|\<close> and for one that contains a newline.
\<close>

theorem log_entry_round_trip:
  assumes "BAR \<notin> set ts" "BAR \<notin> set tid" "BAR \<notin> set i" "BAR \<notin> set ua"
    and "no_linebreak ts" "no_linebreak tid" "no_linebreak i" "no_linebreak ua"
    and "ts = [] \<or> \<not> isspace (hd ts)" "ua = [] \<or> \<not> isspace (last ua)"
  shows "parse_logs (readlines (log_entry ts tid i ua)) =
           [\<lparr>timestamp = ts, tracking_id = tid, ip = i, user_agent = ua\<rparr>] \<and>
         parse_logs (readlines (log_entry (u ''t'') (u ''a|b'') (u ''p'') (u ''ua''))) \<noteq>
           [\<lparr>timestamp = u ''t'', tracking_id = u ''a|b'', ip = u ''p'', user_agent = u ''ua''\<rparr>] \<and>
         parse_logs (readlines (log_entry (u ''t'') (u ''a\<newline>b'') (u ''p'') (u ''ua''))) = []"
proof (intro conjI)
  have sp: "split BAR (ts @ BAR # tid @ BAR # i @ BAR # ua) = [ts, tid, i, ua]"
    using assms(1-4) by (simp add: split_append_sep split_no_sep)
  show "parse_logs (readlines (log_entry ts tid i ua)) =
           [\<lparr>timestamp = ts, tracking_id = tid, ip = i, user_agent = ua\<rparr>]"
    by (simp add: readlines_entry [OF assms(5-8)] strip_entry [OF assms(9,10)] sp)
  show "parse_logs (readlines (log_entry (u ''t'') (u ''a|b'') (u ''p'') (u ''ua''))) \<noteq>
           [\<lparr>timestamp = u ''t'', tracking_id = u ''a|b'', ip = u ''p'', user_agent = u ''ua''\<rparr>]"
    by (simp add: ev log_entry_def)
  show "parse_logs (readlines (log_entry (u ''t'') (u ''a\<newline>b'') (u ''p'') (u ''ua''))) = []"
    by (simp add: ev log_entry_def)
qed

theorem log_entry_round_trip_witness:
  "parse_logs (readlines (log_entry (u ''2025-12-15T09:30:05'') (u ''ocrevus_x'') (u ''10.0.0.1'')
      (u ''Mozilla/5.0 (X11)''))) =
     [\<lparr>timestamp = u ''2025-12-15T09:30:05'', tracking_id = u ''ocrevus_x'', ip = u ''10.0.0.1'',
       user_agent = u ''Mozilla/5.0 (X11)''\<rparr>]"
  by (rule log_entry_round_trip [THEN conjunct1])
     (simp_all add: u_def BAR_def no_linebreak_def LF_def CR_def isspace_def)

theorem log_entry_round_trip_counterexample:
  "BAR \<notin> set (u ''t'' @ u ''x'' @ u ''p'' @ u ''ua '') \<and>
   LF \<notin> set (u ''t'' @ u ''x'' @ u ''p'' @ u ''ua '') \<and>
   parse_logs (readlines (log_entry (u ''t'') (u ''x'') (u ''p'') (u ''ua ''))) \<noteq>
     [\<lparr>timestamp = u ''t'', tracking_id = u ''x'', ip = u ''p'', user_agent = u ''ua ''\<rparr>]"
  by (simp add: ev log_entry_def)

text \<open>
  Claim C5. When the log is read and at least one record parses, the stats handler
  answers 200 with the page whose summary shows the number of records, the number of
  distinct tracking ids and the open rate: the text of
  \<open>total_opens / unique_emails * 100\<close>, computed in Python's float arithmetic and
  formatted with one digit after the point. The number printed differs from the exact
  value of \<open>total_opens / unique_emails * 100\<close> by at most \<open>0.05\<close> plus the two float
  roundings, and it is exactly \<open>k * 100\<close> followed by \<open>.0\<close> when \<open>total_opens\<close> is \<open>k\<close>
  times \<open>unique_emails\<close> (so \<open>N * 100.0\<close> after \<open>N\<close> requests sharing one id, and \<open>133.3\<close>
  for 4 opens of 3 ids). The division raises \<open>ZeroDivisionError\<close> exactly when the log is
  read and \<open>unique_emails\<close> is zero, that is when no record parses; the log file then
  exists and the answer is the 500 page with the text \<open>division by zero\<close>.
\<close>

theorem open_rate_or_division_error:
  "(\<forall>lines. read_log fault w = Inr lines \<and> parse_logs lines \<noteq> [] \<longrightarrow>
      fst (view_stats open_rate fault w) =
        Page (html_1 @ str_int (total_opens (parse_logs lines)) @ html_2 @
              str_int (unique_emails (parse_logs lines)) @ html_3 @
              format_1f (float_mul
                (true_div (total_opens (parse_logs lines)) (unique_emails (parse_logs lines))) 100) @
              html_4 @ concat (map table_row (recent (parse_logs lines))) @ html_end) 200 \<and>
      \<bar>real (tenths (float_mul
          (true_div (total_opens (parse_logs lines)) (unique_emails (parse_logs lines))) 100)) / 10
        - real (total_opens (parse_logs lines)) / real (unique_emails (parse_logs lines)) * 100\<bar>
      \<le> 1 / 20 +
         300 * (real (total_opens (parse_logs lines)) / real (unique_emails (parse_logs lines))) / 2 ^ 53) \<and>
   format_1f d = str_int (tenths d div 10) @ u ''.'' @ [48 + tenths d mod 10] \<and>
   (0 < n \<and> 0 < k \<and> k * 100 < 2 ^ 53 \<longrightarrow> open_rate (k * n) n = str_int (k * 100) @ u ''.0'') \<and>
   open_rate 4 3 = u ''133.3'' \<and>
   (stats_try open_rate fault w = Inl ZeroDivisionError \<longleftrightarrow>
      (\<exists>lines. read_log fault w = Inr lines \<and> unique_emails (parse_logs lines) = 0)) \<and>
   (unique_emails (parse_logs ls) = 0 \<longleftrightarrow> parse_logs ls = []) \<and>
   (stats_try open_rate fault w = Inl ZeroDivisionError \<longrightarrow>
      (\<exists>c. log_file w = Some c) \<and>
      fst (view_stats open_rate fault w) = Page (u ''<h1>Error: division by zero</h1>'') 500)"
proof (intro conjI allI impI)
  fix lines assume a: "read_log fault w = Inr lines \<and> parse_logs lines \<noteq> []"
  then show "fst (view_stats open_rate fault w) =
        Page (html_1 @ str_int (total_opens (parse_logs lines)) @ html_2 @
              str_int (unique_emails (parse_logs lines)) @ html_3 @
              format_1f (float_mul
                (true_div (total_opens (parse_logs lines)) (unique_emails (parse_logs lines))) 100) @
              html_4 @ concat (map table_row (recent (parse_logs lines))) @ html_end) 200"
    using view_stats_ok [of fault w lines open_rate] by (simp add: summary_def open_rate_def)
  have pos: "0 < unique_emails (parse_logs lines)"
    using a unique_zero_iff [of "parse_logs lines"] by simp
  show "\<bar>real (tenths (float_mul
          (true_div (total_opens (parse_logs lines)) (unique_emails (parse_logs lines))) 100)) / 10
        - real (total_opens (parse_logs lines)) / real (unique_emails (parse_logs lines)) * 100\<bar>
      \<le> 1 / 20 +
         300 * (real (total_opens (parse_logs lines)) / real (unique_emails (parse_logs lines))) / 2 ^ 53"
    by (rule open_rate_error [OF pos unique_le_total])
next
  have "str_int (tenths d mod 10) = [48 + tenths d mod 10]" by (subst str_int.simps) simp
  then show "format_1f d = str_int (tenths d div 10) @ u ''.'' @ [48 + tenths d mod 10]"
    by (simp add: format_1f_def Let_def)
next
  assume "0 < n \<and> 0 < k \<and> k * 100 < 2 ^ 53"
  then show "open_rate (k * n) n = str_int (k * 100) @ u ''.0''"
    using open_rate_exact [of n k] by blast
next
  show "open_rate 4 3 = u ''133.3''" by (rule open_rate_4_3)
next
  show "stats_try open_rate fault w = Inl ZeroDivisionError \<longleftrightarrow>
      (\<exists>lines. read_log fault w = Inr lines \<and> unique_emails (parse_logs lines) = 0)"
    by (simp add: stats_try_cases unique_zero_iff)
next
  show "unique_emails (parse_logs ls) = 0 \<longleftrightarrow> parse_logs ls = []"
    by (rule unique_zero_iff)
next
  assume z: "stats_try open_rate fault w = Inl ZeroDivisionError"
  then obtain l where l: "read_log fault w = Inr l" "parse_logs l = []"
    by (auto simp: stats_try_cases)
  then show "\<exists>c. log_file w = Some c" by (auto simp: read_log_cases)
  show "fst (view_stats open_rate fault w) = Page (u ''<h1>Error: division by zero</h1>'') 500"
    using view_stats_zero [OF l, of open_rate] by simp
qed

theorem open_rate_or_division_error_witness:
  "fst (view_stats open_rate None
          \<lparr>log_file = Some (u ''t1|a|p|x\<newline>t2|a|q|y\<newline>t3|b|r|z\<newline>''), stdout = []\<rparr>) =
     Page (html_1 @ u ''3'' @ html_2 @ u ''2'' @ html_3 @ u ''150.0'' @ html_4 @
           concat (map table_row
             [\<lparr>timestamp = u ''t3'', tracking_id = u ''b'', ip = u ''r'', user_agent = u ''z''\<rparr>,
              \<lparr>timestamp = u ''t2'', tracking_id = u ''a'', ip = u ''q'', user_agent = u ''y''\<rparr>,
              \<lparr>timestamp = u ''t1'', tracking_id = u ''a'', ip = u ''p'', user_agent = u ''x''\<rparr>]) @
           html_end) 200 \<and>
   open_rate 7 1 = u ''700.0'' \<and>
   stats_try open_rate None \<lparr>log_file = Some (u ''a|b\<newline>''), stdout = []\<rparr> =
     Inl ZeroDivisionError \<and>
   fst (view_stats open_rate None \<lparr>log_file = Some (u ''a|b\<newline>''), stdout = []\<rparr>) =
     Page (u ''<h1>Error: division by zero</h1>'') 500"
proof -
  note a = open_rate_or_division_error [where fault = None and ls = "[]" and d = "(0, 0)"
      and n = 1 and k = 7
      and w = "\<lparr>log_file = Some (u ''t1|a|p|x\<newline>t2|a|q|y\<newline>t3|b|r|z\<newline>''), stdout = []\<rparr>"]
  note b = open_rate_or_division_error [where fault = None and ls = "[]" and d = "(0, 0)"
      and n = 1 and k = 7
      and w = "\<lparr>log_file = Some (u ''a|b\<newline>''), stdout = []\<rparr>"]
  have rd: "read_log None
      \<lparr>log_file = Some (u ''t1|a|p|x\<newline>t2|a|q|y\<newline>t3|b|r|z\<newline>''), stdout = []\<rparr> =
      Inr [u ''t1|a|p|x\<newline>'', u ''t2|a|q|y\<newline>'', u ''t3|b|r|z\<newline>'']"
    by (simp add: read_log_def ev)
  have ps: "parse_logs [u ''t1|a|p|x\<newline>'', u ''t2|a|q|y\<newline>'', u ''t3|b|r|z\<newline>''] =
     [\<lparr>timestamp = u ''t1'', tracking_id = u ''a'', ip = u ''p'', user_agent = u ''x''\<rparr>,
      \<lparr>timestamp = u ''t2'', tracking_id = u ''a'', ip = u ''q'', user_agent = u ''y''\<rparr>,
      \<lparr>timestamp = u ''t3'', tracking_id = u ''b'', ip = u ''r'', user_agent = u ''z''\<rparr>]"
    by (simp add: ev)
  have q: "read_log None
      \<lparr>log_file = Some (u ''t1|a|p|x\<newline>t2|a|q|y\<newline>t3|b|r|z\<newline>''), stdout = []\<rparr> =
      Inr [u ''t1|a|p|x\<newline>'', u ''t2|a|q|y\<newline>'', u ''t3|b|r|z\<newline>''] \<and>
      parse_logs [u ''t1|a|p|x\<newline>'', u ''t2|a|q|y\<newline>'', u ''t3|b|r|z\<newline>''] \<noteq> []"
    by (simp only: rd ps) simp
  have cnt: "total_opens
     [\<lparr>timestamp = u ''t1'', tracking_id = u ''a'', ip = u ''p'', user_agent = u ''x''\<rparr>,
      \<lparr>timestamp = u ''t2'', tracking_id = u ''a'', ip = u ''q'', user_agent = u ''y''\<rparr>,
      \<lparr>timestamp = u ''t3'', tracking_id = u ''b'', ip = u ''r'', user_agent = u ''z''\<rparr>] = 3"
    "unique_emails
     [\<lparr>timestamp = u ''t1'', tracking_id = u ''a'', ip = u ''p'', user_agent = u ''x''\<rparr>,
      \<lparr>timestamp = u ''t2'', tracking_id = u ''a'', ip = u ''q'', user_agent = u ''y''\<rparr>,
      \<lparr>timestamp = u ''t3'', tracking_id = u ''b'', ip = u ''r'', user_agent = u ''z''\<rparr>] = 2"
    by (simp_all add: total_opens_def unique_emails_def u_def)
  have rc: "recent
     [\<lparr>timestamp = u ''t1'', tracking_id = u ''a'', ip = u ''p'', user_agent = u ''x''\<rparr>,
      \<lparr>timestamp = u ''t2'', tracking_id = u ''a'', ip = u ''q'', user_agent = u ''y''\<rparr>,
      \<lparr>timestamp = u ''t3'', tracking_id = u ''b'', ip = u ''r'', user_agent = u ''z''\<rparr>] =
     [\<lparr>timestamp = u ''t3'', tracking_id = u ''b'', ip = u ''r'', user_agent = u ''z''\<rparr>,
      \<lparr>timestamp = u ''t2'', tracking_id = u ''a'', ip = u ''q'', user_agent = u ''y''\<rparr>,
      \<lparr>timestamp = u ''t1'', tracking_id = u ''a'', ip = u ''p'', user_agent = u ''x''\<rparr>]"
    by (simp add: recent_def)
  have nums: "str_int 3 = u ''3''" "str_int 2 = u ''2''"
    by (simp_all add: str_int.simps u_def)
  have rate: "format_1f (float_mul (true_div 3 2) 100) = u ''150.0''"
    using open_rate_3_2 by (simp only: open_rate_def)
  have p1: "fst (view_stats open_rate None
          \<lparr>log_file = Some (u ''t1|a|p|x\<newline>t2|a|q|y\<newline>t3|b|r|z\<newline>''), stdout = []\<rparr>) =
     Page (html_1 @ u ''3'' @ html_2 @ u ''2'' @ html_3 @ u ''150.0'' @ html_4 @
           concat (map table_row
             [\<lparr>timestamp = u ''t3'', tracking_id = u ''b'', ip = u ''r'', user_agent = u ''z''\<rparr>,
              \<lparr>timestamp = u ''t2'', tracking_id = u ''a'', ip = u ''q'', user_agent = u ''y''\<rparr>,
              \<lparr>timestamp = u ''t1'', tracking_id = u ''a'', ip = u ''p'', user_agent = u ''x''\<rparr>]) @
           html_end) 200"
    using a [THEN conjunct1, rule_format, OF q, THEN conjunct1]
    by (simp only: ps cnt rc nums rate)
  have seven: "str_int 700 = u ''700''" by (simp add: str_int.simps u_def)
  have p2: "open_rate 7 1 = u ''700.0''"
    using a [THEN conjunct2, THEN conjunct2, THEN conjunct1] by (simp add: seven u_def)
  have rl: "read_log None \<lparr>log_file = Some (u ''a|b\<newline>''), stdout = []\<rparr> = Inr [u ''a|b\<newline>'']"
    "unique_emails (parse_logs [u ''a|b\<newline>'']) = 0"
    by (simp_all add: read_log_def ev unique_emails_def)
  note iff = b [THEN conjunct2, THEN conjunct2, THEN conjunct2, THEN conjunct2, THEN conjunct1]
  have z: "stats_try open_rate None \<lparr>log_file = Some (u ''a|b\<newline>''), stdout = []\<rparr> =
     Inl ZeroDivisionError"
    using iff rl by blast
  note last = b [THEN conjunct2, THEN conjunct2, THEN conjunct2, THEN conjunct2, THEN conjunct2,
      THEN conjunct2, rule_format, OF z]
  from p1 p2 z last show ?thesis by simp
qed

text \<open>
  Claim C6. The answer of the stats handler is decided by how the \<open>try\<close> ends: 200 with
  the rendered page when reading and rendering succeed; 404 with the fixed not-found
  message exactly when opening fails because the log file does not exist; 500 with the
  text of the error inside \<open><h1>Error: ...</h1>\<close> for every other error, which is either
  an error raised while opening or reading the file or the division by zero of an
  existing log without records. No other status occurs.
\<close>

theorem view_stats_partition:
  "(fault = None \<and> log_file w = None \<longrightarrow>
      fst (view_stats r fault w) = Page (u ''<h1>No tracking data yet</h1>'') 404) \<and>
   (\<forall>html. stats_try r fault w = Inr html \<longrightarrow> fst (view_stats r fault w) = Page html 200) \<and>
   (\<forall>c. fault = None \<and> log_file w = Some c \<and> parse_logs (readlines c) = [] \<longrightarrow>
      fst (view_stats r fault w) = Page (u ''<h1>Error: division by zero</h1>'') 500) \<and>
   (\<forall>m. fault = Some m \<longrightarrow>
      fst (view_stats r fault w) = Page (u ''<h1>Error: '' @ m @ u ''</h1>'') 500) \<and>
   (status (fst (view_stats r fault w)) = 404 \<longleftrightarrow> fault = None \<and> log_file w = None) \<and>
   (status (fst (view_stats r fault w)) = 200 \<longleftrightarrow>
      fault = None \<and> (\<exists>c. log_file w = Some c \<and> parse_logs (readlines c) \<noteq> [])) \<and>
   (status (fst (view_stats r fault w)) = 500 \<longleftrightarrow>
      fault \<noteq> None \<or> (\<exists>c. log_file w = Some c \<and> parse_logs (readlines c) = []))"
proof -
  consider (missing) "fault = None" "log_file w = None"
    | (ok) c where "fault = None" "log_file w = Some c" "parse_logs (readlines c) \<noteq> []"
    | (zero) c where "fault = None" "log_file w = Some c" "parse_logs (readlines c) = []"
    | (fault) m where "fault = Some m"
    by (cases fault; cases "log_file w") auto
  then show ?thesis
  proof cases
    case missing
    then have "read_log fault w = Inl FileNotFoundError" by (simp add: read_log_cases)
    from view_stats_missing [OF this, of r] missing this show ?thesis
      by (simp add: stats_try_def)
  next
    case ok
    then have rl: "read_log fault w = Inr (readlines c)" by (simp add: read_log_cases)
    from view_stats_ok [OF rl ok(3), of r] ok rl show ?thesis
      by (simp add: stats_try_def render_ok)
  next
    case zero
    then have rl: "read_log fault w = Inr (readlines c)" by (simp add: read_log_cases)
    from view_stats_zero [OF rl zero(3), of r] zero rl show ?thesis
      by (simp add: stats_try_def render_zero)
  next
    case fault
    then have rl: "read_log fault w = Inl (OtherException m)" by (simp add: read_log_cases)
    from view_stats_fault [OF rl, of r] fault rl show ?thesis
      by (simp add: stats_try_def)
  qed
qed

theorem view_stats_partition_witness:
  "fst (view_stats (\<lambda>t n. []) None w_empty) = Page (u ''<h1>No tracking data yet</h1>'') 404 \<and>
   fst (view_stats (\<lambda>t n. []) (Some (u ''Permission denied'')) w_empty) =
     Page (u ''<h1>Error: '' @ u ''Permission denied'' @ u ''</h1>'') 500 \<and>
   fst (view_stats (\<lambda>t n. []) None \<lparr>log_file = Some (u ''a|b\<newline>''), stdout = []\<rparr>) =
     Page (u ''<h1>Error: division by zero</h1>'') 500 \<and>
   status (fst (view_stats (\<lambda>t n. []) None
     \<lparr>log_file = Some (u ''t|a|p|ua\<newline>''), stdout = []\<rparr>)) = 200"
proof -
  have p: "parse_logs (readlines (u ''a|b\<newline>'')) = []"
    "parse_logs (readlines (u ''t|a|p|ua\<newline>'')) \<noteq> []"
    by (simp_all add: ev)
  from view_stats_partition [where fault = None and w = w_empty and r = "\<lambda>t n. []"]
  have a: "fst (view_stats (\<lambda>t n. []) None w_empty) = Page (u ''<h1>No tracking data yet</h1>'') 404"
    by (simp add: w_empty_def)
  from view_stats_partition [where fault = "Some (u ''Permission denied'')" and w = w_empty
      and r = "\<lambda>t n. []"]
  have b: "fst (view_stats (\<lambda>t n. []) (Some (u ''Permission denied'')) w_empty) =
     Page (u ''<h1>Error: '' @ u ''Permission denied'' @ u ''</h1>'') 500"
    by blast
  from view_stats_partition [where fault = None and r = "\<lambda>t n. []"
      and w = "\<lparr>log_file = Some (u ''a|b\<newline>''), stdout = []\<rparr>"] p(1)
  have c: "fst (view_stats (\<lambda>t n. []) None \<lparr>log_file = Some (u ''a|b\<newline>''), stdout = []\<rparr>) =
     Page (u ''<h1>Error: division by zero</h1>'') 500"
    by simp
  from view_stats_partition [where fault = None and r = "\<lambda>t n. []"
      and w = "\<lparr>log_file = Some (u ''t|a|p|ua\<newline>''), stdout = []\<rparr>"] p(2)
  have d: "status (fst (view_stats (\<lambda>t n. []) None
     \<lparr>log_file = Some (u ''t|a|p|ua\<newline>''), stdout = []\<rparr>)) = 200"
    by simp
  from a b c d show ?thesis by blast
qed

text \<open>
  Claim C7, as amended. A pixel request whose write goes through leaves the world as it
  was except for the log file, whose new content is the old content (nothing for a file
  that did not exist) followed by \<open>timestamp|tracking_id|ip|user_agent\<close> and a newline.
  When the old content is empty or ends with a newline and the tracking id, the address
  and the user agent contain no line break, the file then has exactly one more line:
  the lines read before, unchanged, followed by the appended one. The path
  \<open>/pixel/ocrevus_20251215_TERR013_thomas.gambade.png\<close> routes to the tracking id
  \<open>ocrevus_20251215_TERR013_thomas.gambade\<close>, and the second \<open>|\<close>-separated field of the
  line appended for it is that id.
\<close>

theorem track_pixel_appends_entry:
  "snd (track_pixel tid rq now Written w) =
     w\<lparr>log_file := Some ((case log_file w of None \<Rightarrow> [] | Some c \<Rightarrow> c) @
          isoformat now @ [BAR] @ tid @ [BAR] @ get_ip rq @ [BAR] @ get_user_agent rq @ [LF])\<rparr> \<and>
   ((log_file w = None \<or> log_file w = Some [] \<or> (\<exists>c. log_file w = Some (c @ [LF]))) \<and>
    no_linebreak tid \<and> no_linebreak (get_ip rq) \<and> no_linebreak (get_user_agent rq) \<longrightarrow>
      readlines ((case log_file w of None \<Rightarrow> [] | Some c \<Rightarrow> c) @
          isoformat now @ [BAR] @ tid @ [BAR] @ get_ip rq @ [BAR] @ get_user_agent rq @ [LF]) =
        readlines (case log_file w of None \<Rightarrow> [] | Some c \<Rightarrow> c) @
        [isoformat now @ [BAR] @ tid @ [BAR] @ get_ip rq @ [BAR] @ get_user_agent rq @ [LF]]) \<and>
   pixel_route (u ''/pixel/ocrevus_20251215_TERR013_thomas.gambade.png'') =
     Some (u ''ocrevus_20251215_TERR013_thomas.gambade'') \<and>
   split BAR (isoformat now @ [BAR] @ u ''ocrevus_20251215_TERR013_thomas.gambade'' @ [BAR] @
              get_ip rq @ [BAR] @ get_user_agent rq @ [LF]) ! 1 =
     u ''ocrevus_20251215_TERR013_thomas.gambade''"
proof (intro conjI impI)
  show "snd (track_pixel tid rq now Written w) =
     w\<lparr>log_file := Some ((case log_file w of None \<Rightarrow> [] | Some c \<Rightarrow> c) @
          isoformat now @ [BAR] @ tid @ [BAR] @ get_ip rq @ [BAR] @ get_user_agent rq @ [LF])\<rparr>"
    by (simp add: track_pixel_def Let_def log_entry_def u_def BAR_def)
next
  assume a: "(log_file w = None \<or> log_file w = Some [] \<or> (\<exists>c. log_file w = Some (c @ [LF]))) \<and>
    no_linebreak tid \<and> no_linebreak (get_ip rq) \<and> no_linebreak (get_user_agent rq)"
  define old where "old = (case log_file w of None \<Rightarrow> [] | Some c \<Rightarrow> c)"
  define s where "s = isoformat now @ [BAR] @ tid @ [BAR] @ get_ip rq @ [BAR] @ get_user_agent rq"
  have o: "old = [] \<or> (\<exists>c. old = c @ [LF])" using a by (auto simp: old_def)
  have n: "no_linebreak s"
    using a isoformat_no_linebreak [of now] by (simp add: s_def no_linebreak_def BAR_def LF_def CR_def)
  have "readlines (old @ s @ [LF]) = readlines old @ [s @ [LF]]"
    by (rule readlines_append_line [OF o n])
  then show "readlines ((case log_file w of None \<Rightarrow> [] | Some c \<Rightarrow> c) @
          isoformat now @ [BAR] @ tid @ [BAR] @ get_ip rq @ [BAR] @ get_user_agent rq @ [LF]) =
        readlines (case log_file w of None \<Rightarrow> [] | Some c \<Rightarrow> c) @
        [isoformat now @ [BAR] @ tid @ [BAR] @ get_ip rq @ [BAR] @ get_user_agent rq @ [LF]]"
    by (simp add: old_def s_def)
next
  show "pixel_route (u ''/pixel/ocrevus_20251215_TERR013_thomas.gambade.png'') =
     Some (u ''ocrevus_20251215_TERR013_thomas.gambade'')"
    by (simp add: pixel_route_def u_def)
next
  have "BAR \<notin> set (u ''ocrevus_20251215_TERR013_thomas.gambade'')"
    by (simp add: u_def BAR_def)
  then show "split BAR (isoformat now @ [BAR] @ u ''ocrevus_20251215_TERR013_thomas.gambade'' @ [BAR] @
              get_ip rq @ [BAR] @ get_user_agent rq @ [LF]) ! 1 =
     u ''ocrevus_20251215_TERR013_thomas.gambade''"
    using split_two [OF BAR_notin_isoformat [of now], of "u ''ocrevus_20251215_TERR013_thomas.gambade''"]
    by simp
qed

theorem track_pixel_appends_entry_witness:
  "snd (track_pixel (u ''ocrevus_20251215_TERR013_thomas.gambade'') rq0 dt0 Written
         \<lparr>log_file = Some (u ''old line\<newline>''), stdout = []\<rparr>) =
     \<lparr>log_file = Some (u ''old line\<newline>'' @
        u ''2025-12-15T09:30:05|ocrevus_20251215_TERR013_thomas.gambade|10.0.0.1|Mozilla/5.0\<newline>''),
      stdout = []\<rparr> \<and>
   readlines (u ''old line\<newline>'' @
     u ''2025-12-15T09:30:05|ocrevus_20251215_TERR013_thomas.gambade|10.0.0.1|Mozilla/5.0\<newline>'') =
     readlines (u ''old line\<newline>'') @
     [u ''2025-12-15T09:30:05|ocrevus_20251215_TERR013_thomas.gambade|10.0.0.1|Mozilla/5.0\<newline>'']"
proof -
  note th = track_pixel_appends_entry [where tid = "u ''ocrevus_20251215_TERR013_thomas.gambade''"
      and rq = rq0 and now = dt0 and w = "\<lparr>log_file = Some (u ''old line\<newline>''), stdout = []\<rparr>"]
  have e: "\<exists>c. log_file \<lparr>log_file = Some (u ''old line\<newline>''), stdout = []\<rparr> = Some (c @ [LF])"
    by (rule exI [of _ "u ''old line''"]) (simp add: u_def LF_def)
  have h: "(log_file \<lparr>log_file = Some (u ''old line\<newline>''), stdout = []\<rparr> = None \<or>
      log_file \<lparr>log_file = Some (u ''old line\<newline>''), stdout = []\<rparr> = Some [] \<or>
      (\<exists>c. log_file \<lparr>log_file = Some (u ''old line\<newline>''), stdout = []\<rparr> = Some (c @ [LF]))) \<and>
    no_linebreak (u ''ocrevus_20251215_TERR013_thomas.gambade'') \<and>
    no_linebreak (get_ip rq0) \<and> no_linebreak (get_user_agent rq0)"
    using e by (simp add: rq0_fields no_linebreak_def u_def LF_def CR_def)
  have a: "snd (track_pixel (u ''ocrevus_20251215_TERR013_thomas.gambade'') rq0 dt0 Written
         \<lparr>log_file = Some (u ''old line\<newline>''), stdout = []\<rparr>) =
     \<lparr>log_file = Some (u ''old line\<newline>'' @
        u ''2025-12-15T09:30:05|ocrevus_20251215_TERR013_thomas.gambade|10.0.0.1|Mozilla/5.0\<newline>''),
      stdout = []\<rparr>"
    using th [THEN conjunct1] by (simp add: isoformat_dt0 rq0_fields u_def BAR_def LF_def)
  have b: "readlines (u ''old line\<newline>'' @
     u ''2025-12-15T09:30:05|ocrevus_20251215_TERR013_thomas.gambade|10.0.0.1|Mozilla/5.0\<newline>'') =
     readlines (u ''old line\<newline>'') @
     [u ''2025-12-15T09:30:05|ocrevus_20251215_TERR013_thomas.gambade|10.0.0.1|Mozilla/5.0\<newline>'']"
    using th [THEN conjunct2, THEN conjunct1, rule_format, OF h]
    by (simp add: isoformat_dt0 rq0_fields u_def BAR_def LF_def)
  from a b show ?thesis by blast
qed

theorem track_pixel_appends_entry_counterexample:
  "log_file (snd (track_pixel (u ''a\<newline>b'') rq0 dt0 Written w_empty)) =
     Some (u ''2025-12-15T09:30:05|a\<newline>b|10.0.0.1|Mozilla/5.0\<newline>'') \<and>
   readlines (u ''2025-12-15T09:30:05|a\<newline>b|10.0.0.1|Mozilla/5.0\<newline>'') =
     [u ''2025-12-15T09:30:05|a\<newline>'', u ''b|10.0.0.1|Mozilla/5.0\<newline>''] \<and>
   log_file (snd (track_pixel (u ''x'') rq0 dt0 Written
       \<lparr>log_file = Some (u ''t|a|p|ua''), stdout = []\<rparr>)) =
     Some (u ''t|a|p|ua2025-12-15T09:30:05|x|10.0.0.1|Mozilla/5.0\<newline>'') \<and>
   readlines (u ''t|a|p|ua'') = [u ''t|a|p|ua''] \<and>
   readlines (u ''t|a|p|ua2025-12-15T09:30:05|x|10.0.0.1|Mozilla/5.0\<newline>'') =
     [u ''t|a|p|ua2025-12-15T09:30:05|x|10.0.0.1|Mozilla/5.0\<newline>'']"
  by (simp add: track_pixel_def log_entry_def isoformat_dt0 rq0_fields w_empty_def ev)

text \<open>
  Claim C8. The table loop goes over \<open>reversed(opens[-50:])\<close>: \<open>min 50 total_opens\<close>
  records, the \<open>i\<close>-th of them being the record \<open>i\<close> places before the last one of the
  log, so the last \<open>min 50 total_opens\<close> records, newest first. Every row shows the first
  19 characters of the timestamp and the first 80 of the user agent, the tracking id and
  the address in full. The rendered page is the summary followed by these rows, and the
  handler returns the world, with the stored log, unchanged.
\<close>

theorem recent_opens_table:
  "length (recent opens) = min 50 (length opens) \<and>
   (\<forall>i < min 50 (length opens). recent opens ! i = opens ! (length opens - 1 - i)) \<and>
   table_row e = row_1 @ take 19 (timestamp e) @ row_2 @ tracking_id e @ row_3 @ ip e @
                 row_4 @ take 80 (user_agent e) @ row_5 \<and>
   (read_log fault w = Inr lines \<and> parse_logs lines \<noteq> [] \<longrightarrow>
      view_stats r fault w =
        (Page (summary (str_int (total_opens (parse_logs lines)))
                 (str_int (unique_emails (parse_logs lines)))
                 (r (total_opens (parse_logs lines)) (unique_emails (parse_logs lines)))
               @ concat (map table_row (recent (parse_logs lines))) @ html_end) 200, w))"
  using view_stats_ok [of fault w lines r]
  by (simp add: length_recent recent_nth table_row_def)

theorem recent_opens_table_witness:
  "recent (parse_logs [u ''t1|a|p|x'', u ''t2|b|q|y'', u ''t3|c|r|z'']) ! 0 =
     \<lparr>timestamp = u ''t3'', tracking_id = u ''c'', ip = u ''r'', user_agent = u ''z''\<rparr> \<and>
   recent (parse_logs [u ''t1|a|p|x'', u ''t2|b|q|y'', u ''t3|c|r|z'']) ! 2 =
     \<lparr>timestamp = u ''t1'', tracking_id = u ''a'', ip = u ''p'', user_agent = u ''x''\<rparr> \<and>
   snd (view_stats (\<lambda>t n. []) None \<lparr>log_file = Some (u ''t|a|p|ua\<newline>''), stdout = []\<rparr>) =
     \<lparr>log_file = Some (u ''t|a|p|ua\<newline>''), stdout = []\<rparr>"
proof -
  have p: "parse_logs [u ''t1|a|p|x'', u ''t2|b|q|y'', u ''t3|c|r|z''] =
     [\<lparr>timestamp = u ''t1'', tracking_id = u ''a'', ip = u ''p'', user_agent = u ''x''\<rparr>,
      \<lparr>timestamp = u ''t2'', tracking_id = u ''b'', ip = u ''q'', user_agent = u ''y''\<rparr>,
      \<lparr>timestamp = u ''t3'', tracking_id = u ''c'', ip = u ''r'', user_agent = u ''z''\<rparr>]"
    by (simp add: ev)
  note th = recent_opens_table [where fault = None and r = "\<lambda>t n. []"
      and opens = "parse_logs [u ''t1|a|p|x'', u ''t2|b|q|y'', u ''t3|c|r|z'']"
      and w = "\<lparr>log_file = Some (u ''t|a|p|ua\<newline>''), stdout = []\<rparr>"
      and lines = "[u ''t|a|p|ua\<newline>'']"]
  note nth = th [THEN conjunct2, THEN conjunct1, rule_format, unfolded p]
  have a: "recent (parse_logs [u ''t1|a|p|x'', u ''t2|b|q|y'', u ''t3|c|r|z'']) ! 0 =
     \<lparr>timestamp = u ''t3'', tracking_id = u ''c'', ip = u ''r'', user_agent = u ''z''\<rparr>"
    unfolding p using nth [of 0] by simp
  have b: "recent (parse_logs [u ''t1|a|p|x'', u ''t2|b|q|y'', u ''t3|c|r|z'']) ! 2 =
     \<lparr>timestamp = u ''t1'', tracking_id = u ''a'', ip = u ''p'', user_agent = u ''x''\<rparr>"
    unfolding p using nth [of 2] by simp
  have q: "read_log None \<lparr>log_file = Some (u ''t|a|p|ua\<newline>''), stdout = []\<rparr> =
             Inr [u ''t|a|p|ua\<newline>''] \<and> parse_logs [u ''t|a|p|ua\<newline>''] \<noteq> []"
    by (simp only: one_line_log) simp
  have c: "snd (view_stats (\<lambda>t n. []) None \<lparr>log_file = Some (u ''t|a|p|ua\<newline>''), stdout = []\<rparr>) =
     \<lparr>log_file = Some (u ''t|a|p|ua\<newline>''), stdout = []\<rparr>"
    using th [THEN conjunct2, THEN conjunct2, THEN conjunct2, rule_format, OF q]
    by (simp only: snd_conv)
  from a b c show ?thesis by blast
qed



text \<open>
  Claim C10. Of the three handlers only the pixel handler changes the log. The stats
  handler only reads: it returns the world it was given, log file included. The health
  check returns the world untouched together with the fixed payload, status
  \<open>running\<close>, service \<open>Ocrevus Email Tracker\<close>, version \<open>1.0\<close>.
\<close>

theorem only_track_pixel_writes:
  "snd (view_stats r fault w) = w \<and>
   log_file (snd (view_stats r fault w)) = log_file w \<and>
   home w = (Dict [(''status'', ''running''), (''service'', ''Ocrevus Email Tracker''),
                   (''version'', ''1.0'')], w) \<and>
   log_file (snd (track_pixel tid rq now Written w)) \<noteq> log_file w"
  by (simp add: view_stats_world home_def track_pixel_def Let_def log_entry_def split: option.splits)

end
